theory Spec2Isabelle
  imports Main
begin

section \<open>Memory, elements and failures\<close>

text \<open>
  The container of \<^verbatim>\<open>vector.h\<close> is a class template over an element type \<^verbatim>\<open>T\<close>. The model
  is polymorphic in the element values \<open>'a\<close>; what the code asks of \<^verbatim>\<open>T\<close> at compile time
  (\<^verbatim>\<open>std::is_nothrow_move_constructible_v\<close>, \<^verbatim>\<open>std::is_copy_constructible_v\<close>) and what
  \<^verbatim>\<open>T\<close>'s own operations do at run time is collected in a record. The trailing underscore of
  the data members (\<^verbatim>\<open>buffer_\<close>, \<^verbatim>\<open>capacity_\<close>, \<^verbatim>\<open>data_\<close>, \<^verbatim>\<open>size_\<close>) is not a legal name
  here, so the members carry the prefix \<open>m_\<close> instead.

  A slot of raw memory is \<open>Live x\<close> while it holds a constructed element of value \<open>x\<close>,
  and \<open>Raw r\<close> while it holds no object: then \<open>r\<close> is what the bytes of the slot would be
  read as, which is what an object that is default-initialized there without a constructor
  starts with. A destructor leaves \<open>destroyed E x\<close> in the storage of an element of value
  \<open>x\<close> (\<open>x\<close> itself when the destructor is trivial), and new storage from
  \<^verbatim>\<open>operator new\<close> at address \<open>a\<close> holds \<open>fresh_bytes E a i\<close> in slot \<open>i\<close>. An allocation
  is a list of slots stored in the heap at its address; \<^verbatim>\<open>nullptr\<close> is \<open>None\<close>.

  Failures are values. \<open>BadAlloc\<close> and \<open>CopyThrew\<close> are C++ exceptions (thrown by
  \<^verbatim>\<open>operator new\<close> and by \<^verbatim>\<open>T\<close>'s copy constructor); \<open>Undefined\<close> stands for a violated
  precondition (a failed \<^verbatim>\<open>assert\<close>, a read of an uninitialized slot, an access out of the
  allocation), which no handler catches. Of the element operations only copy construction
  is modelled as fallible: invocation number \<open>k\<close> of the copy constructor (counted in the
  world, from 0) throws when \<open>copy_throws E k\<close>. Moves, assignments, default and value
  initialization and destructors do not throw here; a move leaves \<open>moved_from E x\<close> in
  its source. Value initialization \<^verbatim>\<open>T()\<close> yields \<open>value_init E\<close>; default initialization
  of storage that reads as \<open>r\<close> yields \<open>default_init E r\<close>: a constant function for a
  class with a default constructor, the identity for \<^verbatim>\<open>int\<close>, where it writes nothing.

  Sizes, capacities and offsets are natural numbers. The products \<^verbatim>\<open>size_ * 2\<close> and
  \<^verbatim>\<open>n * sizeof(T)\<close> of the code are taken in \<^verbatim>\<open>size_t\<close>, an unsigned type of
  \<open>size_t_bits E\<close> bits, so they are reduced modulo \<open>2 ^ size_t_bits E\<close>; \<open>size_of E\<close> is
  \<^verbatim>\<open>sizeof(T)\<close>. \<open>new_throws E n\<close> says that \<^verbatim>\<open>operator new\<close> fails for a request of \<open>n\<close>
  bytes. A request that wraps is a request for fewer bytes than \<open>n\<close> elements need, and
  \<^verbatim>\<open>RawMemory\<close> records the capacity \<open>n\<close> all the same; the theorems about growth
  therefore say for which arguments the product is representable (\<open>fits\<close> below).
\<close>

type_synonym addr = nat

datatype 'a slot = is_Raw: Raw (content: 'a) | is_Live: Live (content: 'a)

type_synonym 'a buffer = "'a slot list"

datatype error = BadAlloc | CopyThrew | Undefined

record 'a env =
  is_nothrow_move_constructible :: bool
  is_copy_constructible :: bool
  copy_throws :: "nat \<Rightarrow> bool"
  moved_from :: "'a \<Rightarrow> 'a"
  destroyed :: "'a \<Rightarrow> 'a"
  default_init :: "'a \<Rightarrow> 'a"
  value_init :: 'a
  new_throws :: "nat \<Rightarrow> bool"
  fresh_bytes :: "addr \<Rightarrow> nat \<Rightarrow> 'a"
  size_of :: nat
  size_t_bits :: nat

record 'a world =
  heap :: "addr \<Rightarrow> 'a buffer option"
  brk :: addr
  copies :: nat

text \<open>How the new element of an append or insert is constructed from \<^verbatim>\<open>args...\<close>:
  by \<^verbatim>\<open>T(const T&)\<close>, by \<^verbatim>\<open>T(T&&)\<close>, or by another constructor yielding the given value.
  The argument is passed as the value it has at the call. Every path of the code
  constructs the new element before it moves or destroys an element of the vector, so a
  \<^verbatim>\<open>const T&\<close> that refers into the vector is read in time; an rvalue argument is taken
  to be an object outside the vector.\<close>

datatype 'a ctor_args = ByCopy 'a | ByMove 'a | InPlace 'a

fun run_ctor :: "'a env \<Rightarrow> 'a ctor_args \<Rightarrow> nat \<Rightarrow> (error + 'a) \<times> nat" where
  "run_ctor E (ByCopy x) c = (if copy_throws E c then Inl CopyThrew else Inr x, Suc c)"
| "run_ctor E (ByMove x) c = (Inr x, c)"
| "run_ctor E (InPlace x) c = (Inr x, c)"

text \<open>The condition of every \<^verbatim>\<open>if constexpr\<close> in the class.\<close>

definition relocates_by_move :: "'a env \<Rightarrow> bool" where
  "relocates_by_move E = (is_nothrow_move_constructible E \<or> \<not> is_copy_constructible E)"

text \<open>Multiplication in \<^verbatim>\<open>size_t\<close>.\<close>

definition size_t_mul :: "'a env \<Rightarrow> nat \<Rightarrow> nat \<Rightarrow> nat" where
  "size_t_mul E a b = (a * b) mod 2 ^ size_t_bits E"

section \<open>Operations on the slots of one allocation\<close>

definition read_slot :: "'a buffer \<Rightarrow> nat \<Rightarrow> error + 'a" where
  "read_slot b i =
     (if i < length b then (case b ! i of Raw r \<Rightarrow> Inl Undefined | Live x \<Rightarrow> Inr x)
      else Inl Undefined)"

text \<open>Placement \<^verbatim>\<open>new\<close> into an uninitialized slot.\<close>

definition construct_slot :: "'a buffer \<Rightarrow> nat \<Rightarrow> 'a \<Rightarrow> error + 'a buffer" where
  "construct_slot b i x =
     (if i < length b \<and> is_Raw (b ! i) then Inr (b[i := Live x]) else Inl Undefined)"

text \<open>The destructor call \<^verbatim>\<open>b[i].~T()\<close>.\<close>

definition destroy_slot :: "'a env \<Rightarrow> 'a buffer \<Rightarrow> nat \<Rightarrow> error + 'a buffer" where
  "destroy_slot E b i =
     (if i < length b \<and> is_Live (b ! i) then Inr (b[i := Raw (destroyed E (content (b ! i)))])
      else Inl Undefined)"


text \<open>Move assignment \<^verbatim>\<open>b[d] = std::move(b[s])\<close> between two live slots.\<close>

definition move_assign_slot :: "'a env \<Rightarrow> 'a buffer \<Rightarrow> nat \<Rightarrow> nat \<Rightarrow> error + 'a buffer" where
  "move_assign_slot E b s d =
     (case read_slot b s of
        Inl e \<Rightarrow> Inl e
      | Inr x \<Rightarrow>
          (case read_slot b d of
             Inl e \<Rightarrow> Inl e
           | Inr y \<Rightarrow> Inr (b[s := Live (moved_from E x), d := Live x])))"

text \<open>Move construction \<^verbatim>\<open>new (b + d) T(std::move(b[s]))\<close> inside one allocation.\<close>

definition move_construct_slot :: "'a env \<Rightarrow> 'a buffer \<Rightarrow> nat \<Rightarrow> nat \<Rightarrow> error + 'a buffer" where
  "move_construct_slot E b s d =
     (case read_slot b s of
        Inl e \<Rightarrow> Inl e
      | Inr x \<Rightarrow> construct_slot (b[s := Live (moved_from E x)]) d x)"

text \<open>\<^verbatim>\<open>std::destroy_n(first, n)\<close>.\<close>

fun destroy_slots :: "'a env \<Rightarrow> 'a buffer \<Rightarrow> nat \<Rightarrow> nat \<Rightarrow> error + 'a buffer" where
  "destroy_slots E b first 0 = Inr b"
| "destroy_slots E b first (Suc n) =
     (case destroy_slot E b first of
        Inl e \<Rightarrow> Inl e
      | Inr b' \<Rightarrow> destroy_slots E b' (Suc first) n)"


text \<open>\<^verbatim>\<open>std::uninitialized_value_construct_n(first, n)\<close> constructs \<open>n\<close> elements of one
  given value.\<close>

fun construct_slots :: "'a buffer \<Rightarrow> nat \<Rightarrow> nat \<Rightarrow> 'a \<Rightarrow> error + 'a buffer" where
  "construct_slots b first 0 x = Inr b"
| "construct_slots b first (Suc n) x =
     (case construct_slot b first x of
        Inl e \<Rightarrow> Inl e
      | Inr b' \<Rightarrow> construct_slots b' (Suc first) n x)"

text \<open>
  \<^verbatim>\<open>std::uninitialized_copy_n(first, n, d_first)\<close>: the loop copy-constructs one element
  after the other; when a copy constructor throws, the elements constructed so far, in
  \<open>[d_first, current)\<close>, are destroyed and the exception is thrown again.
\<close>

fun copy_loop ::
  "'a env \<Rightarrow> 'a buffer \<Rightarrow> nat \<Rightarrow> nat \<Rightarrow> 'a buffer \<Rightarrow> nat \<Rightarrow> nat \<Rightarrow> error option \<times> 'a buffer \<times> nat \<times> nat" where
  "copy_loop E src first 0 dst current c = (None, dst, current, c)"
| "copy_loop E src first (Suc n) dst current c =
     (case read_slot src first of
        Inl e \<Rightarrow> (Some e, dst, current, c)
      | Inr x \<Rightarrow>
          (case run_ctor E (ByCopy x) c of
             (Inl e, c') \<Rightarrow> (Some e, dst, current, c')
           | (Inr y, c') \<Rightarrow>
               (case construct_slot dst current y of
                  Inl e \<Rightarrow> (Some e, dst, current, c')
                | Inr dst' \<Rightarrow> copy_loop E src (Suc first) n dst' (Suc current) c')))"

definition uninitialized_copy_slots ::
  "'a env \<Rightarrow> 'a buffer \<Rightarrow> nat \<Rightarrow> nat \<Rightarrow> 'a buffer \<Rightarrow> nat \<Rightarrow> nat \<Rightarrow> error option \<times> 'a buffer \<times> nat" where
  "uninitialized_copy_slots E src first n dst d_first c =
     (case copy_loop E src first n dst d_first c of
        (None, dst', current, c') \<Rightarrow> (None, dst', c')
      | (Some e, dst', current, c') \<Rightarrow>
          (if e = Undefined then (Some e, dst', c')
           else (case destroy_slots E dst' d_first (current - d_first) of
                   Inl e' \<Rightarrow> (Some e', dst', c')
                 | Inr dst'' \<Rightarrow> (Some e, dst'', c'))))"

text \<open>\<^verbatim>\<open>std::uninitialized_move_n(first, n, d_first)\<close>: every source slot stays constructed,
  holding what the move left behind.\<close>

fun uninitialized_move_slots ::
  "'a env \<Rightarrow> 'a buffer \<Rightarrow> nat \<Rightarrow> nat \<Rightarrow> 'a buffer \<Rightarrow> nat \<Rightarrow> error + ('a buffer \<times> 'a buffer)" where
  "uninitialized_move_slots E src first 0 dst d = Inr (src, dst)"
| "uninitialized_move_slots E src first (Suc n) dst d =
     (case read_slot src first of
        Inl e \<Rightarrow> Inl e
      | Inr x \<Rightarrow>
          (case construct_slot dst d x of
             Inl e \<Rightarrow> Inl e
           | Inr dst' \<Rightarrow>
               uninitialized_move_slots E (src[first := Live (moved_from E x)]) (Suc first) n dst' (Suc d)))"

text \<open>\<^verbatim>\<open>std::move(first, last, d_first)\<close> inside one allocation, front to back;
  \<open>n\<close> is the distance from \<^verbatim>\<open>first\<close> to \<^verbatim>\<open>last\<close> (written \<open>lst\<close> below).\<close>

fun move_forward :: "'a env \<Rightarrow> 'a buffer \<Rightarrow> nat \<Rightarrow> nat \<Rightarrow> nat \<Rightarrow> error + 'a buffer" where
  "move_forward E b first 0 d = Inr b"
| "move_forward E b first (Suc n) d =
     (case move_assign_slot E b first d of
        Inl e \<Rightarrow> Inl e
      | Inr b' \<Rightarrow> move_forward E b' (Suc first) n (Suc d))"

definition std_move_slots :: "'a env \<Rightarrow> 'a buffer \<Rightarrow> nat \<Rightarrow> nat \<Rightarrow> nat \<Rightarrow> error + 'a buffer" where
  "std_move_slots E b first lst d_first =
     (if lst < first then Inl Undefined else move_forward E b first (lst - first) d_first)"

text \<open>\<^verbatim>\<open>std::move_backward(first, last, d_last)\<close> inside one allocation, back to front:
  \<^verbatim>\<open>while (first != last) *(--d_last) = std::move(*(--last));\<close>\<close>

fun move_back :: "'a env \<Rightarrow> 'a buffer \<Rightarrow> nat \<Rightarrow> nat \<Rightarrow> nat \<Rightarrow> error + 'a buffer" where
  "move_back E b 0 lst d_lst = Inr b"
| "move_back E b (Suc n) lst d_lst =
     (if lst = 0 \<or> d_lst = 0 then Inl Undefined
      else (case move_assign_slot E b (lst - 1) (d_lst - 1) of
              Inl e \<Rightarrow> Inl e
            | Inr b' \<Rightarrow> move_back E b' n (lst - 1) (d_lst - 1)))"

definition std_move_backward_slots :: "'a env \<Rightarrow> 'a buffer \<Rightarrow> nat \<Rightarrow> nat \<Rightarrow> nat \<Rightarrow> error + 'a buffer" where
  "std_move_backward_slots E b first lst d_lst =
     (if lst < first then Inl Undefined else move_back E b (lst - first) lst d_lst)"

text \<open>\<^verbatim>\<open>std::copy(first, first + n, d_first)\<close> from one allocation onto the live slots of
  another: copy assignment, element by element.\<close>

fun std_copy_slots :: "'a buffer \<Rightarrow> nat \<Rightarrow> nat \<Rightarrow> 'a buffer \<Rightarrow> nat \<Rightarrow> error + 'a buffer" where
  "std_copy_slots src first 0 dst d = Inr dst"
| "std_copy_slots src first (Suc n) dst d =
     (case read_slot src first of
        Inl e \<Rightarrow> Inl e
      | Inr x \<Rightarrow>
          (case read_slot dst d of
             Inl e \<Rightarrow> Inl e
           | Inr y \<Rightarrow> std_copy_slots src (Suc first) n (dst[d := Live x]) (Suc d)))"

text \<open>Assignment \<^verbatim>\<open>b[i] = std::move(x)\<close> of a value held outside the allocation to a live slot.\<close>

definition assign_slot :: "'a buffer \<Rightarrow> nat \<Rightarrow> 'a \<Rightarrow> error + 'a buffer" where
  "assign_slot b i x =
     (if i < length b \<and> is_Live (b ! i) then Inr (b[i := Live x]) else Inl Undefined)"

section \<open>RawMemory\<close>

record RawMemory =
  m_buffer :: "addr option"
  m_capacity :: nat

text \<open>The default constructor: the default member initializers \<^verbatim>\<open>nullptr\<close> and \<^verbatim>\<open>0\<close>.\<close>

definition RawMemory_default :: RawMemory where
  "RawMemory_default = \<lparr>m_buffer = None, m_capacity = 0\<rparr>"

text \<open>\<^verbatim>\<open>operator new(bytes)\<close> throws or hands out a fresh block of \<open>bytes\<close> bytes, also for
  \<open>bytes = 0\<close>. The block has room for \<open>bytes div sizeof(T)\<close> slots, all uninitialized.\<close>

definition operator_new :: "'a env \<Rightarrow> nat \<Rightarrow> 'a world \<Rightarrow> (error + addr) \<times> 'a world" where
  "operator_new E bytes w =
     (if new_throws E bytes then (Inl BadAlloc, w)
      else (Inr (brk w),
            w\<lparr>heap := (heap w)(brk w \<mapsto> map (\<lambda>i. Raw (fresh_bytes E (brk w) i)) [0..<bytes div size_of E]),
              brk := Suc (brk w)\<rparr>))"

text \<open>\<^verbatim>\<open>Allocate(n)\<close>: no request for \<open>n = 0\<close>; otherwise a request for \<^verbatim>\<open>n * sizeof(T)\<close>
  bytes, the product taken in \<^verbatim>\<open>size_t\<close>.\<close>

definition Allocate :: "'a env \<Rightarrow> nat \<Rightarrow> 'a world \<Rightarrow> (error + addr option) \<times> 'a world" where
  "Allocate E n w =
     (if n \<noteq> 0 then
        (case operator_new E (size_t_mul E n (size_of E)) w of
           (Inl e, w') \<Rightarrow> (Inl e, w')
         | (Inr a, w') \<Rightarrow> (Inr (Some a), w'))
      else (Inr None, w))"

text \<open>\<^verbatim>\<open>Deallocate(buf)\<close>: \<^verbatim>\<open>operator delete\<close>, which ignores \<^verbatim>\<open>nullptr\<close>.\<close>

definition Deallocate :: "addr option \<Rightarrow> 'a world \<Rightarrow> 'a world" where
  "Deallocate buf w = (case buf of None \<Rightarrow> w | Some a \<Rightarrow> w\<lparr>heap := (heap w)(a := None)\<rparr>)"

definition RawMemory_new :: "'a env \<Rightarrow> nat \<Rightarrow> 'a world \<Rightarrow> (error + RawMemory) \<times> 'a world" where
  "RawMemory_new E capacity w =
     (case Allocate E capacity w of
        (Inl e, w') \<Rightarrow> (Inl e, w')
      | (Inr buf, w') \<Rightarrow> (Inr \<lparr>m_buffer = buf, m_capacity = capacity\<rparr>, w'))"

definition RawMemory_dtor :: "RawMemory \<Rightarrow> 'a world \<Rightarrow> 'a world" where
  "RawMemory_dtor m w = Deallocate (m_buffer m) w"

text \<open>\<^verbatim>\<open>Swap\<close> returns the two objects after the exchange, \<^verbatim>\<open>*this\<close> first.\<close>

definition RawMemory_Swap :: "RawMemory \<Rightarrow> RawMemory \<Rightarrow> RawMemory \<times> RawMemory" where
  "RawMemory_Swap this other =
     (this\<lparr>m_buffer := m_buffer other, m_capacity := m_capacity other\<rparr>,
      other\<lparr>m_buffer := m_buffer this, m_capacity := m_capacity this\<rparr>)"

text \<open>The move constructor swaps the source with a freshly default-initialized object;
  the result is the new object and the source afterwards.\<close>

definition RawMemory_move_ctor :: "RawMemory \<Rightarrow> RawMemory \<times> RawMemory" where
  "RawMemory_move_ctor other = RawMemory_Swap RawMemory_default other"

definition RawMemory_move_assign :: "RawMemory \<Rightarrow> RawMemory \<Rightarrow> RawMemory \<times> RawMemory" where
  "RawMemory_move_assign this rhs = RawMemory_Swap this rhs"

definition RawMemory_Capacity :: "RawMemory \<Rightarrow> nat" where
  "RawMemory_Capacity m = m_capacity m"

text \<open>The slots an object points to. Through \<^verbatim>\<open>nullptr\<close>, or through a pointer to a block
  that was released, no slot can be reached.\<close>

definition slots :: "'a world \<Rightarrow> RawMemory \<Rightarrow> 'a buffer" where
  "slots w m =
     (case m_buffer m of
        None \<Rightarrow> []
      | Some a \<Rightarrow> (case heap w a of None \<Rightarrow> [] | Some b \<Rightarrow> b))"

definition put_slots :: "RawMemory \<Rightarrow> 'a buffer \<Rightarrow> 'a world \<Rightarrow> 'a world" where
  "put_slots m b w =
     (case m_buffer m of
        None \<Rightarrow> w
      | Some a \<Rightarrow> (case heap w a of None \<Rightarrow> w | Some b0 \<Rightarrow> w\<lparr>heap := (heap w)(a \<mapsto> b)\<rparr>))"

definition on_slots :: "RawMemory \<Rightarrow> ('a buffer \<Rightarrow> error + 'a buffer) \<Rightarrow> 'a world \<Rightarrow> error option \<times> 'a world" where
  "on_slots m f w =
     (case f (slots w m) of
        Inl e \<Rightarrow> (Some e, w)
      | Inr b \<Rightarrow> (None, put_slots m b w))"

section \<open>The standard algorithms on pointers into allocations\<close>

text \<open>A pointer \<^verbatim>\<open>m + i\<close> is the pair of the object \<open>m\<close> and the offset \<open>i\<close>. The asserts
  of \<^verbatim>\<open>RawMemory::operator+\<close> and \<^verbatim>\<open>RawMemory::operator[]\<close> are subsumed: an access beyond
  the allocation is \<open>Undefined\<close>.\<close>

definition destroy_at :: "'a env \<Rightarrow> RawMemory \<Rightarrow> nat \<Rightarrow> 'a world \<Rightarrow> error option \<times> 'a world" where
  "destroy_at E m i w = on_slots m (\<lambda>b. destroy_slot E b i) w"

definition destroy_n :: "'a env \<Rightarrow> RawMemory \<Rightarrow> nat \<Rightarrow> nat \<Rightarrow> 'a world \<Rightarrow> error option \<times> 'a world" where
  "destroy_n E m first n w = on_slots m (\<lambda>b. destroy_slots E b first n) w"

definition uninitialized_value_construct_n ::
  "'a env \<Rightarrow> RawMemory \<Rightarrow> nat \<Rightarrow> nat \<Rightarrow> 'a world \<Rightarrow> error option \<times> 'a world" where
  "uninitialized_value_construct_n E m first n w =
     on_slots m (\<lambda>b. construct_slots b first n (value_init E)) w"


definition uninitialized_copy_n ::
  "'a env \<Rightarrow> RawMemory \<Rightarrow> nat \<Rightarrow> nat \<Rightarrow> RawMemory \<Rightarrow> nat \<Rightarrow> 'a world \<Rightarrow> error option \<times> 'a world" where
  "uninitialized_copy_n E src first n dst d_first w =
     (case uninitialized_copy_slots E (slots w src) first n (slots w dst) d_first (copies w) of
        (st, b, c) \<Rightarrow> (st, put_slots dst b (w\<lparr>copies := c\<rparr>)))"

definition uninitialized_move_n ::
  "'a env \<Rightarrow> RawMemory \<Rightarrow> nat \<Rightarrow> nat \<Rightarrow> RawMemory \<Rightarrow> nat \<Rightarrow> 'a world \<Rightarrow> error option \<times> 'a world" where
  "uninitialized_move_n E src first n dst d_first w =
     (case uninitialized_move_slots E (slots w src) first n (slots w dst) d_first of
        Inl e \<Rightarrow> (Some e, w)
      | Inr (bs, bd) \<Rightarrow> (None, put_slots dst bd (put_slots src bs w)))"

definition std_move :: "'a env \<Rightarrow> RawMemory \<Rightarrow> nat \<Rightarrow> nat \<Rightarrow> nat \<Rightarrow> 'a world \<Rightarrow> error option \<times> 'a world" where
  "std_move E m first lst d_first w = on_slots m (\<lambda>b. std_move_slots E b first lst d_first) w"

definition std_move_backward ::
  "'a env \<Rightarrow> RawMemory \<Rightarrow> nat \<Rightarrow> nat \<Rightarrow> nat \<Rightarrow> 'a world \<Rightarrow> error option \<times> 'a world" where
  "std_move_backward E m first lst d_lst w =
     on_slots m (\<lambda>b. std_move_backward_slots E b first lst d_lst) w"

definition std_copy :: "RawMemory \<Rightarrow> nat \<Rightarrow> nat \<Rightarrow> RawMemory \<Rightarrow> nat \<Rightarrow> 'a world \<Rightarrow> error option \<times> 'a world" where
  "std_copy src first n dst d_first w =
     on_slots dst (\<lambda>b. std_copy_slots (slots w src) first n b d_first) w"

text \<open>\<^verbatim>\<open>new (m + i) T(std::forward<Args>(args)...)\<close>: the constructor runs first, then the
  slot holds its result.\<close>

definition construct :: "'a env \<Rightarrow> 'a ctor_args \<Rightarrow> RawMemory \<Rightarrow> nat \<Rightarrow> 'a world \<Rightarrow> error option \<times> 'a world" where
  "construct E args m i w =
     (case run_ctor E args (copies w) of
        (Inl e, c) \<Rightarrow> (Some e, w\<lparr>copies := c\<rparr>)
      | (Inr x, c) \<Rightarrow> on_slots m (\<lambda>b. construct_slot b i x) (w\<lparr>copies := c\<rparr>))"

section \<open>Vector\<close>

record Vector =
  m_data :: RawMemory
  m_size :: nat

text \<open>A member function takes the object \<^verbatim>\<open>*this\<close> and the world and returns its outcome
  together with the object and the world as it leaves them, also when it throws.\<close>

definition Vector_default :: Vector where
  "Vector_default = \<lparr>m_data = RawMemory_default, m_size = 0\<rparr>"

definition Vector_sized :: "'a env \<Rightarrow> nat \<Rightarrow> 'a world \<Rightarrow> (error + Vector) \<times> 'a world" where
  "Vector_sized E n w =
     (case RawMemory_new E n w of
        (Inl e, w1) \<Rightarrow> (Inl e, w1)
      | (Inr d, w1) \<Rightarrow>
          (case uninitialized_value_construct_n E d 0 n w1 of
             (Some e, w2) \<Rightarrow> (Inl e, RawMemory_dtor d w2)
           | (None, w2) \<Rightarrow> (Inr \<lparr>m_data = d, m_size = n\<rparr>, w2)))"

definition Vector_copy :: "'a env \<Rightarrow> Vector \<Rightarrow> 'a world \<Rightarrow> (error + Vector) \<times> 'a world" where
  "Vector_copy E other w =
     (case RawMemory_new E (m_size other) w of
        (Inl e, w1) \<Rightarrow> (Inl e, w1)
      | (Inr d, w1) \<Rightarrow>
          (case uninitialized_copy_n E (m_data other) 0 (m_size other) d 0 w1 of
             (Some e, w2) \<Rightarrow> (Inl e, RawMemory_dtor d w2)
           | (None, w2) \<Rightarrow> (Inr \<lparr>m_data = d, m_size = m_size other\<rparr>, w2)))"

text \<open>The move constructor returns the new object and the source afterwards.\<close>

definition Vector_move :: "Vector \<Rightarrow> Vector \<times> Vector" where
  "Vector_move other =
     (case RawMemory_move_ctor (m_data other) of
        (d, od) \<Rightarrow> (\<lparr>m_data = d, m_size = m_size other\<rparr>, other\<lparr>m_data := od, m_size := 0\<rparr>))"

definition Vector_dtor :: "'a env \<Rightarrow> Vector \<Rightarrow> 'a world \<Rightarrow> error option \<times> 'a world" where
  "Vector_dtor E v w =
     (case destroy_n E (m_data v) 0 (m_size v) w of
        (Some e, w1) \<Rightarrow> (Some e, w1)
      | (None, w1) \<Rightarrow> (None, RawMemory_dtor (m_data v) w1))"

definition Size :: "Vector \<Rightarrow> nat" where
  "Size v = m_size v"

definition Capacity :: "Vector \<Rightarrow> nat" where
  "Capacity v = RawMemory_Capacity (m_data v)"


definition Vector_Swap :: "Vector \<Rightarrow> Vector \<Rightarrow> Vector \<times> Vector" where
  "Vector_Swap this other =
     (case RawMemory_Swap (m_data this) (m_data other) of
        (d, od) \<Rightarrow> (this\<lparr>m_data := d, m_size := m_size other\<rparr>, other\<lparr>m_data := od, m_size := m_size this\<rparr>))"

text \<open>\<^verbatim>\<open>CopyOrMoveAndSwap(new_data)\<close> also returns \<^verbatim>\<open>new_data\<close>, which it receives by
  reference and which holds the old allocation after the swap.\<close>

definition CopyOrMoveAndSwap ::
  "'a env \<Rightarrow> RawMemory \<Rightarrow> Vector \<Rightarrow> 'a world \<Rightarrow> error option \<times> RawMemory \<times> Vector \<times> 'a world" where
  "CopyOrMoveAndSwap E new_data v w =
     (case (if relocates_by_move E
            then uninitialized_move_n E (m_data v) 0 (m_size v) new_data 0 w
            else uninitialized_copy_n E (m_data v) 0 (m_size v) new_data 0 w) of
        (Some e, w1) \<Rightarrow> (Some e, new_data, v, w1)
      | (None, w1) \<Rightarrow>
          (case destroy_n E (m_data v) 0 (m_size v) w1 of
             (Some e, w2) \<Rightarrow> (Some e, new_data, v, w2)
           | (None, w2) \<Rightarrow>
               (case RawMemory_Swap (m_data v) new_data of
                  (d, old_data) \<Rightarrow> (None, old_data, v\<lparr>m_data := d\<rparr>, w2))))"

text \<open>The local \<^verbatim>\<open>new_data\<close> is destroyed when \<^verbatim>\<open>Reserve\<close> is left, by return or by
  exception, releasing whichever allocation it then holds.\<close>

definition Reserve :: "'a env \<Rightarrow> nat \<Rightarrow> Vector \<Rightarrow> 'a world \<Rightarrow> error option \<times> Vector \<times> 'a world" where
  "Reserve E new_capacity v w =
     (if new_capacity \<le> RawMemory_Capacity (m_data v) then (None, v, w)
      else (case RawMemory_new E new_capacity w of
              (Inl e, w1) \<Rightarrow> (Some e, v, w1)
            | (Inr new_data, w1) \<Rightarrow>
                (case CopyOrMoveAndSwap E new_data v w1 of
                   (st, new_data', v', w2) \<Rightarrow> (st, v', RawMemory_dtor new_data' w2))))"


text \<open>\<^verbatim>\<open>EmplaceBack\<close> returns a reference to the last element; the model returns its index.\<close>

definition EmplaceBack :: "'a env \<Rightarrow> 'a ctor_args \<Rightarrow> Vector \<Rightarrow> 'a world \<Rightarrow> (error + nat) \<times> Vector \<times> 'a world" where
  "EmplaceBack E args v w =
     (if m_size v = Capacity v then
        (case RawMemory_new E (if m_size v = 0 then 1 else size_t_mul E (m_size v) 2) w of
           (Inl e, w1) \<Rightarrow> (Inl e, v, w1)
         | (Inr new_data, w1) \<Rightarrow>
             (case construct E args new_data (m_size v) w1 of
                (Some e, w2) \<Rightarrow> (Inl e, v, RawMemory_dtor new_data w2)
              | (None, w2) \<Rightarrow>
                  (case CopyOrMoveAndSwap E new_data v w2 of
                     (Some e, new_data', v', w3) \<Rightarrow> (Inl e, v', RawMemory_dtor new_data' w3)
                   | (None, new_data', v', w3) \<Rightarrow>
                       (Inr (m_size v'), v'\<lparr>m_size := m_size v' + 1\<rparr>, RawMemory_dtor new_data' w3))))
      else
        (case construct E args (m_data v) (m_size v) w of
           (Some e, w1) \<Rightarrow> (Inl e, v, w1)
         | (None, w1) \<Rightarrow> (Inr (m_size v), v\<lparr>m_size := m_size v + 1\<rparr>, w1)))"

definition PushBack_copy :: "'a env \<Rightarrow> 'a \<Rightarrow> Vector \<Rightarrow> 'a world \<Rightarrow> (error + nat) \<times> Vector \<times> 'a world" where
  "PushBack_copy E val v w = EmplaceBack E (ByCopy val) v w"

definition PushBack_move :: "'a env \<Rightarrow> 'a \<Rightarrow> Vector \<Rightarrow> 'a world \<Rightarrow> (error + nat) \<times> Vector \<times> 'a world" where
  "PushBack_move E val v w = EmplaceBack E (ByMove val) v w"

text \<open>\<^verbatim>\<open>PopBack\<close> on an empty vector forms the pointer \<^verbatim>\<open>data_ + 0 - 1\<close>.\<close>

definition PopBack :: "'a env \<Rightarrow> Vector \<Rightarrow> 'a world \<Rightarrow> error option \<times> Vector \<times> 'a world" where
  "PopBack E v w =
     (if m_size v = 0 then (Some Undefined, v, w)
      else (case destroy_at E (m_data v) (m_size v - 1) w of
              (Some e, w1) \<Rightarrow> (Some e, v, w1)
            | (None, w1) \<Rightarrow> (None, v\<lparr>m_size := m_size v - 1\<rparr>, w1)))"

text \<open>An iterator is the offset from \<^verbatim>\<open>begin()\<close>. \<^verbatim>\<open>Erase\<close> returns \<^verbatim>\<open>res_pos\<close>.\<close>

definition Erase :: "'a env \<Rightarrow> nat \<Rightarrow> Vector \<Rightarrow> 'a world \<Rightarrow> (error + nat) \<times> Vector \<times> 'a world" where
  "Erase E pos v w =
     (case std_move E (m_data v) (pos + 1) (m_size v) pos w of
        (Some e, w1) \<Rightarrow> (Inl e, v, w1)
      | (None, w1) \<Rightarrow>
          (case PopBack E v w1 of
             (Some e, v', w2) \<Rightarrow> (Inl e, v', w2)
           | (None, v', w2) \<Rightarrow> (Inr pos, v', w2)))"

text \<open>
  The growth branch of \<^verbatim>\<open>Emplace\<close> relocates the prefix and the suffix in two
  \<^verbatim>\<open>if constexpr\<close> statements. On the copying side each is a \<^verbatim>\<open>try\<close> block whose handler
  destroys elements of the new allocation and then ends: it has no \<^verbatim>\<open>throw;\<close>, so control
  continues after the handler as if the copy had succeeded.
\<close>

definition Emplace_prefix :: "'a env \<Rightarrow> Vector \<Rightarrow> RawMemory \<Rightarrow> nat \<Rightarrow> 'a world \<Rightarrow> error option \<times> 'a world" where
  "Emplace_prefix E v new_data dist_pos w =
     (if relocates_by_move E then uninitialized_move_n E (m_data v) 0 dist_pos new_data 0 w
      else (case uninitialized_copy_n E (m_data v) 0 dist_pos new_data 0 w of
              (Some e, w1) \<Rightarrow> (if e = Undefined then (Some e, w1) else destroy_at E new_data dist_pos w1)
            | (None, w1) \<Rightarrow> (None, w1)))"

definition Emplace_suffix :: "'a env \<Rightarrow> Vector \<Rightarrow> RawMemory \<Rightarrow> nat \<Rightarrow> 'a world \<Rightarrow> error option \<times> 'a world" where
  "Emplace_suffix E v new_data dist_pos w =
     (if relocates_by_move E
      then uninitialized_move_n E (m_data v) dist_pos (m_size v - dist_pos) new_data (dist_pos + 1) w
      else (case uninitialized_copy_n E (m_data v) dist_pos (m_size v - dist_pos) new_data (dist_pos + 1) w of
              (Some e, w1) \<Rightarrow> (if e = Undefined then (Some e, w1) else destroy_n E new_data 0 (dist_pos + 1) w1)
            | (None, w1) \<Rightarrow> (None, w1)))"

definition Emplace_grow :: "'a env \<Rightarrow> nat \<Rightarrow> 'a ctor_args \<Rightarrow> Vector \<Rightarrow> 'a world \<Rightarrow> (error + nat) \<times> Vector \<times> 'a world" where
  "Emplace_grow E pos args v w =
     (case RawMemory_new E (if m_size v = 0 then 1 else size_t_mul E (m_size v) 2) w of
        (Inl e, w1) \<Rightarrow> (Inl e, v, w1)
      | (Inr new_data, w1) \<Rightarrow>
          (let dist_pos = pos in
           case construct E args new_data dist_pos w1 of
             (Some e, w2) \<Rightarrow> (Inl e, v, RawMemory_dtor new_data w2)
           | (None, w2) \<Rightarrow>
               (case Emplace_prefix E v new_data dist_pos w2 of
                  (Some e, w3) \<Rightarrow> (Inl e, v, RawMemory_dtor new_data w3)
                | (None, w3) \<Rightarrow>
                    (case Emplace_suffix E v new_data dist_pos w3 of
                       (Some e, w4) \<Rightarrow> (Inl e, v, RawMemory_dtor new_data w4)
                     | (None, w4) \<Rightarrow>
                         (case destroy_n E (m_data v) 0 (m_size v) w4 of
                            (Some e, w5) \<Rightarrow> (Inl e, v, RawMemory_dtor new_data w5)
                          | (None, w5) \<Rightarrow>
                              (case RawMemory_Swap (m_data v) new_data of
                                 (d, old_data) \<Rightarrow>
                                   (Inr dist_pos, v\<lparr>m_data := d, m_size := m_size v + 1\<rparr>,
                                    RawMemory_dtor old_data w5)))))))"

text \<open>The branch that shifts in place: the temporary \<^verbatim>\<open>new_elem\<close>, the move construction
  of the last element one slot further, \<^verbatim>\<open>std::move_backward\<close>, the assignment.\<close>

definition Emplace_shift :: "'a env \<Rightarrow> nat \<Rightarrow> 'a ctor_args \<Rightarrow> Vector \<Rightarrow> 'a world \<Rightarrow> (error + nat) \<times> Vector \<times> 'a world" where
  "Emplace_shift E pos args v w =
     (case run_ctor E args (copies w) of
        (Inl e, c) \<Rightarrow> (Inl e, v, w\<lparr>copies := c\<rparr>)
      | (Inr new_elem, c) \<Rightarrow>
          (case on_slots (m_data v) (\<lambda>b. move_construct_slot E b (m_size v - 1) (m_size v)) (w\<lparr>copies := c\<rparr>) of
             (Some e, w1) \<Rightarrow> (Inl e, v, w1)
           | (None, w1) \<Rightarrow>
               (case std_move_backward E (m_data v) pos (m_size v - 1) (m_size v) w1 of
                  (Some e, w2) \<Rightarrow> (Inl e, v, w2)
                | (None, w2) \<Rightarrow>
                    (case on_slots (m_data v) (\<lambda>b. assign_slot b pos new_elem) w2 of
                       (Some e, w3) \<Rightarrow> (Inl e, v, w3)
                     | (None, w3) \<Rightarrow> (Inr pos, v\<lparr>m_size := m_size v + 1\<rparr>, w3)))))"

text \<open>\<^verbatim>\<open>pos\<close> has to be an iterator of the vector, in \<open>[begin(), end()]\<close>; the pointer
  comparison and the pointer difference of any other \<^verbatim>\<open>pos\<close> are undefined.\<close>

definition Emplace :: "'a env \<Rightarrow> nat \<Rightarrow> 'a ctor_args \<Rightarrow> Vector \<Rightarrow> 'a world \<Rightarrow> (error + nat) \<times> Vector \<times> 'a world" where
  "Emplace E pos args v w =
     (if m_size v < pos then (Inl Undefined, v, w)
      else if pos = m_size v then EmplaceBack E args v w
      else if m_size v = Capacity v then Emplace_grow E pos args v w
      else Emplace_shift E pos args v w)"

definition Insert_copy :: "'a env \<Rightarrow> nat \<Rightarrow> 'a \<Rightarrow> Vector \<Rightarrow> 'a world \<Rightarrow> (error + nat) \<times> Vector \<times> 'a world" where
  "Insert_copy E pos val v w = Emplace E pos (ByCopy val) v w"

definition Insert_move :: "'a env \<Rightarrow> nat \<Rightarrow> 'a \<Rightarrow> Vector \<Rightarrow> 'a world \<Rightarrow> (error + nat) \<times> Vector \<times> 'a world" where
  "Insert_move E pos val v w = Emplace E pos (ByMove val) v w"

section \<open>Assignment and swap between two objects\<close>

text \<open>
  Copy assignment compares the addresses of its two operands, so here objects are named
  by references into an object store. The body of \<^verbatim>\<open>if (this != &rhs)\<close> comes first, once
  as in \<^verbatim>\<open>vector.h\<close> and once as in the second source file, which differ in how they call
  \<^verbatim>\<open>std::copy\<close>. The temporary \<^verbatim>\<open>rhs_copy\<close> is destroyed at the end of its block.
\<close>

definition copy_assign_body :: "'a env \<Rightarrow> Vector \<Rightarrow> Vector \<Rightarrow> 'a world \<Rightarrow> error option \<times> Vector \<times> 'a world" where
  "copy_assign_body E rhs v w =
     (if m_size rhs > RawMemory_Capacity (m_data v) then
        (case Vector_copy E rhs w of
           (Inl e, w1) \<Rightarrow> (Some e, v, w1)
         | (Inr rhs_copy, w1) \<Rightarrow>
             (case Vector_Swap v rhs_copy of
                (v', rhs_copy') \<Rightarrow> (case Vector_dtor E rhs_copy' w1 of (st, w2) \<Rightarrow> (st, v', w2))))
      else
        (let copy_count = (if Size rhs < m_size v then Size rhs else m_size v) in
         case std_copy (m_data rhs) 0 copy_count (m_data v) 0 w of
           (Some e, w1) \<Rightarrow> (Some e, v, w1)
         | (None, w1) \<Rightarrow>
             (case (if Size rhs < m_size v
                    then destroy_n E (m_data v) (Size rhs) (m_size v - Size rhs) w1
                    else if Size rhs > m_size v
                    then uninitialized_copy_n E (m_data rhs) (m_size v) (Size rhs - m_size v) (m_data v) (m_size v) w1
                    else (None, w1)) of
                (Some e, w2) \<Rightarrow> (Some e, v, w2)
              | (None, w2) \<Rightarrow> (None, v\<lparr>m_size := Size rhs\<rparr>, w2))))"

definition copy_assign_body_part_000 :: "'a env \<Rightarrow> Vector \<Rightarrow> Vector \<Rightarrow> 'a world \<Rightarrow> error option \<times> Vector \<times> 'a world" where
  "copy_assign_body_part_000 E rhs v w =
     (if m_size rhs > RawMemory_Capacity (m_data v) then
        (case Vector_copy E rhs w of
           (Inl e, w1) \<Rightarrow> (Some e, v, w1)
         | (Inr rhs_copy, w1) \<Rightarrow>
             (case Vector_Swap v rhs_copy of
                (v', rhs_copy') \<Rightarrow> (case Vector_dtor E rhs_copy' w1 of (st, w2) \<Rightarrow> (st, v', w2))))
      else
        (case (if Size rhs < m_size v then
                 (case std_copy (m_data rhs) 0 (Size rhs) (m_data v) 0 w of
                    (Some e, w1) \<Rightarrow> (Some e, w1)
                  | (None, w1) \<Rightarrow> destroy_n E (m_data v) (Size rhs) (m_size v - Size rhs) w1)
               else
                 (case std_copy (m_data rhs) 0 (m_size v) (m_data v) 0 w of
                    (Some e, w1) \<Rightarrow> (Some e, w1)
                  | (None, w1) \<Rightarrow>
                      uninitialized_copy_n E (m_data rhs) (m_size v) (Size rhs - m_size v) (m_data v) (m_size v) w1)) of
           (Some e, w2) \<Rightarrow> (Some e, v, w2)
         | (None, w2) \<Rightarrow> (None, v\<lparr>m_size := Size rhs\<rparr>, w2)))"

type_synonym objects = "nat \<Rightarrow> Vector option"

definition Vector_copy_assign ::
  "'a env \<Rightarrow> nat \<Rightarrow> nat \<Rightarrow> objects \<Rightarrow> 'a world \<Rightarrow> error option \<times> objects \<times> 'a world" where
  "Vector_copy_assign E this rhs os w =
     (case (os this, os rhs) of
        (Some v, Some r) \<Rightarrow>
          (if this \<noteq> rhs
           then (case copy_assign_body E r v w of (st, v', w') \<Rightarrow> (st, os(this \<mapsto> v'), w'))
           else (None, os, w))
      | _ \<Rightarrow> (Some Undefined, os, w))"

definition Vector_copy_assign_part_000 ::
  "'a env \<Rightarrow> nat \<Rightarrow> nat \<Rightarrow> objects \<Rightarrow> 'a world \<Rightarrow> error option \<times> objects \<times> 'a world" where
  "Vector_copy_assign_part_000 E this rhs os w =
     (case (os this, os rhs) of
        (Some v, Some r) \<Rightarrow>
          (if this \<noteq> rhs
           then (case copy_assign_body_part_000 E r v w of (st, v', w') \<Rightarrow> (st, os(this \<mapsto> v'), w'))
           else (None, os, w))
      | _ \<Rightarrow> (Some Undefined, os, w))"

text \<open>\<^verbatim>\<open>Swap\<close> and move assignment between two referenced objects; both members are
  exchanged, also when the two references name one object.\<close>

definition Swap :: "nat \<Rightarrow> nat \<Rightarrow> objects \<Rightarrow> error + objects" where
  "Swap this other os =
     (case (os this, os other) of
        (Some a, Some b) \<Rightarrow> (case Vector_Swap a b of (a', b') \<Rightarrow> Inr (os(other \<mapsto> b', this \<mapsto> a')))
      | _ \<Rightarrow> Inl Undefined)"

definition Vector_move_assign :: "nat \<Rightarrow> nat \<Rightarrow> objects \<Rightarrow> error + objects" where
  "Vector_move_assign this rhs os = Swap this rhs os"

section \<open>The representation invariant and the abstraction\<close>

text \<open>The object owns a block of exactly \<open>m_capacity\<close> slots that was handed out by the
  allocator, or no block and capacity 0.\<close>

definition owns :: "'a world \<Rightarrow> RawMemory \<Rightarrow> bool" where
  "owns w m =
     (case m_buffer m of
        None \<Rightarrow> m_capacity m = 0
      | Some a \<Rightarrow> a < brk w \<and> (case heap w a of None \<Rightarrow> False | Some b \<Rightarrow> length b = m_capacity m))"

text \<open>The invariant of the data model: \<open>size \<le> capacity\<close>, the slots below \<open>size\<close> are
  constructed, the slots from \<open>size\<close> on are uninitialized.\<close>

definition invariant :: "'a world \<Rightarrow> Vector \<Rightarrow> bool" where
  "invariant w v =
     (m_size v \<le> Capacity v \<and> owns w (m_data v) \<and>
      list_all is_Live (take (m_size v) (slots w (m_data v))) \<and>
      list_all is_Raw (drop (m_size v) (slots w (m_data v))))"

text \<open>The sequence of element values a vector holds.\<close>

definition elements :: "'a world \<Rightarrow> Vector \<Rightarrow> 'a list" where
  "elements w v = map content (take (m_size v) (slots w (m_data v)))"

section \<open>Clients and example inputs\<close>

text \<open>The value a constructor call yields when it does not throw.\<close>

fun value_of :: "'a ctor_args \<Rightarrow> 'a" where
  "value_of (ByCopy x) = x"
| "value_of (ByMove x) = x"
| "value_of (InPlace x) = x"

text \<open>The three ways to append: \<^verbatim>\<open>PushBack(const T&)\<close>, \<^verbatim>\<open>PushBack(T&&)\<close> and
  \<^verbatim>\<open>EmplaceBack(args...)\<close>; and the value each of them appends.\<close>

datatype 'a append_op = PushBack_lvalue 'a | PushBack_rvalue 'a | EmplaceBack_args "'a ctor_args"

fun append_call :: "'a env \<Rightarrow> 'a append_op \<Rightarrow> Vector \<Rightarrow> 'a world \<Rightarrow> (error + nat) \<times> Vector \<times> 'a world" where
  "append_call E (PushBack_lvalue x) v w = PushBack_copy E x v w"
| "append_call E (PushBack_rvalue x) v w = PushBack_move E x v w"
| "append_call E (EmplaceBack_args args) v w = EmplaceBack E args v w"

fun appended :: "'a append_op \<Rightarrow> 'a" where
  "appended (PushBack_lvalue x) = x"
| "appended (PushBack_rvalue x) = x"
| "appended (EmplaceBack_args args) = value_of args"

text \<open>A caller that appends one element after the other and stops at the first failure.\<close>

fun append_all :: "'a env \<Rightarrow> 'a append_op list \<Rightarrow> Vector \<Rightarrow> 'a world \<Rightarrow> error option \<times> Vector \<times> 'a world" where
  "append_all E [] v w = (None, v, w)"
| "append_all E (a # as) v w =
     (case append_call E a v w of
        (Inl e, v', w') \<Rightarrow> (Some e, v', w')
      | (Inr i, v', w') \<Rightarrow> append_all E as v' w')"

text \<open>A request for \<open>n\<close> slots whose size in bytes is representable in \<^verbatim>\<open>size_t\<close>.\<close>

definition fits :: "'a env \<Rightarrow> nat \<Rightarrow> bool" where
  "fits E n \<longleftrightarrow> 0 < size_of E \<and> n * size_of E < 2 ^ size_t_bits E"

text \<open>Two element types of four bytes on a machine with a \<^verbatim>\<open>size_t\<close> of 64 bits, where
  new storage reads as 0. The first wraps an \<open>int\<close>, is copyable, has a move constructor
  that is not \<^verbatim>\<open>noexcept\<close>, a copy constructor that throws on invocation \<open>k\<close> only, and a
  default constructor that stores 0. The second is \<^verbatim>\<open>int\<close>: nothing throws, and default
  initialization and destruction write nothing.\<close>

definition throwing_copy_type :: "nat \<Rightarrow> int env" where
  "throwing_copy_type k =
     \<lparr>is_nothrow_move_constructible = False, is_copy_constructible = True,
      copy_throws = (\<lambda>i. i = k), moved_from = (\<lambda>x. x), destroyed = (\<lambda>x. x),
      default_init = (\<lambda>r. 0), value_init = 0, new_throws = (\<lambda>n. False),
      fresh_bytes = (\<lambda>a i. 0), size_of = 4, size_t_bits = 64\<rparr>"

definition plain_type :: "int env" where
  "plain_type =
     \<lparr>is_nothrow_move_constructible = True, is_copy_constructible = True,
      copy_throws = (\<lambda>i. False), moved_from = (\<lambda>x. x), destroyed = (\<lambda>x. x),
      default_init = (\<lambda>r. r), value_init = 0, new_throws = (\<lambda>n. False),
      fresh_bytes = (\<lambda>a i. 0), size_of = 4, size_t_bits = 64\<rparr>"

text \<open>A vector holding \<open>1, 2\<close> in an allocation of two slots, and the world it lives in.\<close>

definition two_ints :: "int world" where
  "two_ints = \<lparr>heap = (\<lambda>a. None)(0 \<mapsto> [Live 1, Live 2]), brk = 1, copies = 0\<rparr>"

definition full_vector :: Vector where
  "full_vector = \<lparr>m_data = \<lparr>m_buffer = Some 0, m_capacity = 2\<rparr>, m_size = 2\<rparr>"



text \<open>A world with a second vector, holding \<open>7\<close> in an allocation of three slots.\<close>

definition two_vectors :: "int world" where
  "two_vectors =
     \<lparr>heap = (\<lambda>a. None)(0 \<mapsto> [Live 1, Live 2], 1 \<mapsto> [Live 7, Raw 0, Raw 0]), brk = 2, copies = 0\<rparr>"

definition single_vector :: Vector where
  "single_vector = \<lparr>m_data = \<lparr>m_buffer = Some 1, m_capacity = 3\<rparr>, m_size = 1\<rparr>"

text \<open>The world before anything was allocated.\<close>

definition no_allocations :: "int world" where
  "no_allocations = \<lparr>heap = (\<lambda>a. None), brk = 0, copies = 0\<rparr>"

section \<open>Auxiliary notions of the proofs\<close>

text \<open>The list \<open>[f 0, \<dots>, f (n - 1)]\<close>; the outcome of each loop is stated slot by slot.\<close>

definition tabulate :: "nat \<Rightarrow> (nat \<Rightarrow> 'b) \<Rightarrow> 'b list" where
  "tabulate n f = map f [0..<n]"

text \<open>What a move, a destructor and a default initialization leave in a slot.\<close>

definition moved_slot :: "'a env \<Rightarrow> 'a slot \<Rightarrow> 'a slot" where
  "moved_slot E s = Live (moved_from E (content s))"

definition destroyed_slot :: "'a env \<Rightarrow> 'a slot \<Rightarrow> 'a slot" where
  "destroyed_slot E s = Raw (destroyed E (content s))"

definition default_slot :: "'a env \<Rightarrow> 'a slot \<Rightarrow> 'a slot" where
  "default_slot E s = Live (default_init E (content s))"

text \<open>The object and the world that a successful \<^verbatim>\<open>RawMemory(n)\<close> with \<open>n \<noteq> 0\<close> yields
  when the size of the request does not wrap.\<close>

definition fresh :: "'a world \<Rightarrow> nat \<Rightarrow> RawMemory" where
  "fresh w n = \<lparr>m_buffer = Some (brk w), m_capacity = n\<rparr>"

definition grown :: "'a env \<Rightarrow> 'a world \<Rightarrow> nat \<Rightarrow> 'a world" where
  "grown E w n =
     w\<lparr>heap := (heap w)(brk w \<mapsto> map (\<lambda>i. Raw (fresh_bytes E (brk w) i)) [0..<n]), brk := Suc (brk w)\<rparr>"

text \<open>The vector \<open>v\<close> holds exactly the sequence \<open>xs\<close>: the invariant and the abstraction
  in one statement about the slots.\<close>

definition holds :: "'a world \<Rightarrow> Vector \<Rightarrow> 'a list \<Rightarrow> bool" where
  "holds w v xs \<longleftrightarrow>
     owns w (m_data v) \<and> m_size v = length xs \<and> length xs \<le> m_capacity (m_data v) \<and>
     (\<forall>i<length xs. slots w (m_data v) ! i = Live (xs ! i)) \<and>
     (\<forall>i. length xs \<le> i \<and> i < m_capacity (m_data v) \<longrightarrow> is_Raw (slots w (m_data v) ! i))"

section \<open>The loops over slots\<close>

lemma length_tabulate [simp]: "length (tabulate n f) = n"
  by (simp add: tabulate_def)

lemma nth_tabulate [simp]: "i < n \<Longrightarrow> tabulate n f ! i = f i"
  by (simp add: tabulate_def)

lemma tabulate_eqI: "length xs = n \<Longrightarrow> (\<And>i. i < n \<Longrightarrow> xs ! i = f i) \<Longrightarrow> xs = tabulate n f"
  by (simp add: list_eq_iff_nth_eq)

lemma tabulate_cong: "(\<And>i. i < n \<Longrightarrow> f i = g i) \<Longrightarrow> tabulate n f = tabulate n g"
  by (simp add: list_eq_iff_nth_eq)

lemma slot_simps [simp]:
  "moved_slot E (Live x) = Live (moved_from E x)" "is_Live (moved_slot E s)" "\<not> is_Raw (moved_slot E s)"
  "destroyed_slot E (Live x) = Raw (destroyed E x)" "is_Raw (destroyed_slot E s)" "\<not> is_Live (destroyed_slot E s)"
  "default_slot E (Raw x) = Live (default_init E x)" "is_Live (default_slot E s)" "\<not> is_Raw (default_slot E s)"
  by (simp_all add: moved_slot_def destroyed_slot_def default_slot_def)

lemma is_Live_iff: "is_Live s \<longleftrightarrow> \<not> is_Raw s"
  by (cases s) simp_all

lemma destroy_slots_ok:
  "first + n \<le> length b \<Longrightarrow> (\<And>i. first \<le> i \<Longrightarrow> i < first + n \<Longrightarrow> is_Live (b ! i)) \<Longrightarrow>
   destroy_slots E b first n =
     Inr (tabulate (length b) (\<lambda>i. if first \<le> i \<and> i < first + n then destroyed_slot E (b ! i) else b ! i))"
proof (induction n arbitrary: b first)
  case 0
  then show ?case by (auto simp: list_eq_iff_nth_eq)
next
  case (Suc n)
  let ?b = "b[first := destroyed_slot E (b ! first)]"
  have d: "destroy_slot E b first = Inr ?b"
    using Suc.prems by (simp add: destroy_slot_def destroyed_slot_def)
  have "destroy_slots E ?b (Suc first) n =
     Inr (tabulate (length ?b) (\<lambda>i. if Suc first \<le> i \<and> i < Suc first + n then destroyed_slot E (?b ! i) else ?b ! i))"
    using Suc.prems by (intro Suc.IH) (simp_all add: nth_list_update)
  moreover have "tabulate (length ?b) (\<lambda>i. if Suc first \<le> i \<and> i < Suc first + n then destroyed_slot E (?b ! i) else ?b ! i) =
      tabulate (length b) (\<lambda>i. if first \<le> i \<and> i < first + Suc n then destroyed_slot E (b ! i) else b ! i)"
  proof (rule tabulate_eqI)
    fix i assume i: "i < length b"
    consider "i < first" | "i = first" | "first < i" by linarith
    then show "tabulate (length ?b) (\<lambda>i. if Suc first \<le> i \<and> i < Suc first + n then destroyed_slot E (?b ! i) else ?b ! i) ! i =
       (if first \<le> i \<and> i < first + Suc n then destroyed_slot E (b ! i) else b ! i)"
      using i by cases simp_all
  qed simp
  ultimately show ?case
    using d by simp
qed

lemma construct_slots_ok:
  "first + n \<le> length b \<Longrightarrow> (\<And>i. first \<le> i \<Longrightarrow> i < first + n \<Longrightarrow> is_Raw (b ! i)) \<Longrightarrow>
   construct_slots b first n x =
     Inr (tabulate (length b) (\<lambda>i. if first \<le> i \<and> i < first + n then Live x else b ! i))"
proof (induction n arbitrary: b first)
  case 0
  then show ?case by (auto simp: list_eq_iff_nth_eq)
next
  case (Suc n)
  have d: "construct_slot b first x = Inr (b[first := Live x])"
    using Suc.prems by (simp add: construct_slot_def)
  have "construct_slots (b[first := Live x]) (Suc first) n x =
     Inr (tabulate (length (b[first := Live x])) (\<lambda>i. if Suc first \<le> i \<and> i < Suc first + n then Live x else b[first := Live x] ! i))"
    using Suc.prems by (intro Suc.IH) (simp_all add: nth_list_update)
  then show ?case
    using d by (auto simp: list_eq_iff_nth_eq nth_list_update)
qed


lemma copy_loop_ok:
  "first + n \<le> length src \<Longrightarrow> (\<And>i. first \<le> i \<Longrightarrow> i < first + n \<Longrightarrow> is_Live (src ! i)) \<Longrightarrow>
   d + n \<le> length dst \<Longrightarrow> (\<And>i. d \<le> i \<Longrightarrow> i < d + n \<Longrightarrow> is_Raw (dst ! i)) \<Longrightarrow>
   (\<And>k. k < n \<Longrightarrow> \<not> copy_throws E (c + k)) \<Longrightarrow>
   copy_loop E src first n dst d c =
     (None, tabulate (length dst) (\<lambda>i. if d \<le> i \<and> i < d + n then src ! (first + (i - d)) else dst ! i),
      d + n, c + n)"
proof (induction n arbitrary: first dst d c)
  case 0
  then show ?case by (auto simp: list_eq_iff_nth_eq)
next
  case (Suc n)
  have "is_Live (src ! first)" using Suc.prems(2)[of first] by simp
  then obtain x where x: "src ! first = Live x" by (cases "src ! first") auto
  have r: "read_slot src first = Inr x" using Suc.prems(1) x by (simp add: read_slot_def)
  have m: "run_ctor E (ByCopy x) c = (Inr x, Suc c)" using Suc.prems(5)[of 0] by simp
  have cs: "construct_slot dst d x = Inr (dst[d := Live x])"
    using Suc.prems(3,4) by (simp add: construct_slot_def)
  have "copy_loop E src (Suc first) n (dst[d := Live x]) (Suc d) (Suc c) =
     (None, tabulate (length (dst[d := Live x])) (\<lambda>i. if Suc d \<le> i \<and> i < Suc d + n then src ! (Suc first + (i - Suc d)) else dst[d := Live x] ! i),
      Suc d + n, Suc c + n)"
  proof (rule Suc.IH)
    fix k assume "k < n" then show "\<not> copy_throws E (Suc c + k)" using Suc.prems(5)[of "Suc k"] by simp
  qed (use Suc.prems in \<open>simp_all add: nth_list_update\<close>)
  moreover have "\<And>i. Suc d \<le> i \<Longrightarrow> Suc (first + i - Suc d) = first + i - d"
    and "\<And>i. \<not> Suc d \<le> i \<Longrightarrow> d \<le> i \<Longrightarrow> first + i - d = first" by arith+
  ultimately show ?case
    using r m cs x by (auto simp: list_eq_iff_nth_eq nth_list_update)
qed

lemma uninitialized_copy_slots_ok:
  "first + n \<le> length src \<Longrightarrow> (\<And>i. first \<le> i \<Longrightarrow> i < first + n \<Longrightarrow> is_Live (src ! i)) \<Longrightarrow>
   d + n \<le> length dst \<Longrightarrow> (\<And>i. d \<le> i \<Longrightarrow> i < d + n \<Longrightarrow> is_Raw (dst ! i)) \<Longrightarrow>
   (\<And>k. k < n \<Longrightarrow> \<not> copy_throws E (c + k)) \<Longrightarrow>
   uninitialized_copy_slots E src first n dst d c =
     (None, tabulate (length dst) (\<lambda>i. if d \<le> i \<and> i < d + n then src ! (first + (i - d)) else dst ! i),
      c + n)"
  by (simp add: uninitialized_copy_slots_def copy_loop_ok)

lemma copy_loop_throws:
  "first + n \<le> length src \<Longrightarrow> (\<And>i. first \<le> i \<Longrightarrow> i < first + n \<Longrightarrow> is_Live (src ! i)) \<Longrightarrow>
   d + n \<le> length dst \<Longrightarrow> (\<And>i. d \<le> i \<Longrightarrow> i < d + n \<Longrightarrow> is_Raw (dst ! i)) \<Longrightarrow>
   k < n \<Longrightarrow> copy_throws E (c + k) \<Longrightarrow>
   \<exists>j c'. j < n \<and> c < c' \<and> c' \<le> c + n \<and> copy_loop E src first n dst d c =
     (Some CopyThrew, tabulate (length dst) (\<lambda>i. if d \<le> i \<and> i < d + j then src ! (first + (i - d)) else dst ! i),
      d + j, c')"
proof (induction n arbitrary: first dst d c k)
  case 0
  then show ?case by simp
next
  case (Suc n)
  have "is_Live (src ! first)" using Suc.prems(2)[of first] by simp
  then obtain x where x: "src ! first = Live x" by (cases "src ! first") auto
  have r: "read_slot src first = Inr x" using Suc.prems(1) x by (simp add: read_slot_def)
  show ?case
  proof (cases "copy_throws E c")
    case True
    then have "copy_loop E src first (Suc n) dst d c =
       (Some CopyThrew, tabulate (length dst) (\<lambda>i. if d \<le> i \<and> i < d + 0 then src ! (first + (i - d)) else dst ! i), d + 0, Suc c)"
      using r by (auto simp: list_eq_iff_nth_eq)
    then show ?thesis by (intro exI[of _ 0] exI[of _ "Suc c"]) simp
  next
    case False
    then obtain k' where k': "k = Suc k'" using Suc.prems(6) by (cases k) auto
    have m: "run_ctor E (ByCopy x) c = (Inr x, Suc c)" using False by simp
    have cs: "construct_slot dst d x = Inr (dst[d := Live x])"
      using Suc.prems(3,4) by (simp add: construct_slot_def)
    have "\<exists>j c'. j < n \<and> Suc c < c' \<and> c' \<le> Suc c + n \<and> copy_loop E src (Suc first) n (dst[d := Live x]) (Suc d) (Suc c) =
      (Some CopyThrew, tabulate (length (dst[d := Live x])) (\<lambda>i. if Suc d \<le> i \<and> i < Suc d + j then src ! (Suc first + (i - Suc d)) else dst[d := Live x] ! i),
       Suc d + j, c')"
    proof (rule Suc.IH[where k = k'])
      show "k' < n" using Suc.prems(5) k' by simp
      show "copy_throws E (Suc c + k')" using Suc.prems(6) k' by simp
    qed (use Suc.prems in \<open>simp_all add: nth_list_update\<close>)
    then obtain j c' where j: "j < n" "Suc c < c'" "c' \<le> Suc c + n" and
      cl: "copy_loop E src (Suc first) n (dst[d := Live x]) (Suc d) (Suc c) =
      (Some CopyThrew, tabulate (length (dst[d := Live x])) (\<lambda>i. if Suc d \<le> i \<and> i < Suc d + j then src ! (Suc first + (i - Suc d)) else dst[d := Live x] ! i),
       Suc d + j, c')" by blast
    have "\<And>i. Suc d \<le> i \<Longrightarrow> Suc (first + i - Suc d) = first + i - d"
      and "\<And>i. \<not> Suc d \<le> i \<Longrightarrow> d \<le> i \<Longrightarrow> first + i - d = first" by arith+
    then have "copy_loop E src first (Suc n) dst d c =
       (Some CopyThrew, tabulate (length dst) (\<lambda>i. if d \<le> i \<and> i < d + Suc j then src ! (first + (i - d)) else dst ! i), d + Suc j, c')"
      using r m cs cl x by (auto simp: list_eq_iff_nth_eq nth_list_update)
    then show ?thesis using j by (intro exI[of _ "Suc j"] exI[of _ c']) simp
  qed
qed

text \<open>When a copy throws, the slots that were constructed are destroyed again: the
  destination has its length and no constructed slot more than before.\<close>

lemma uninitialized_copy_slots_throws:
  assumes "first + n \<le> length src" "\<And>i. first \<le> i \<Longrightarrow> i < first + n \<Longrightarrow> is_Live (src ! i)"
    "d + n \<le> length dst" "\<And>i. d \<le> i \<Longrightarrow> i < d + n \<Longrightarrow> is_Raw (dst ! i)"
    "k < n" "copy_throws E (c + k)"
  shows "\<exists>c' dst'. c < c' \<and> c' \<le> c + n \<and>
           uninitialized_copy_slots E src first n dst d c = (Some CopyThrew, dst', c') \<and>
           length dst' = length dst \<and> (\<forall>i<length dst. is_Raw (dst' ! i) = is_Raw (dst ! i))"
proof -
  from copy_loop_throws[OF assms] obtain j c' where j: "j < n" "c < c'" "c' \<le> c + n" and
    cl: "copy_loop E src first n dst d c =
     (Some CopyThrew, tabulate (length dst) (\<lambda>i. if d \<le> i \<and> i < d + j then src ! (first + (i - d)) else dst ! i),
      d + j, c')" by blast
  let ?t = "tabulate (length dst) (\<lambda>i. if d \<le> i \<and> i < d + j then src ! (first + (i - d)) else dst ! i)"
  let ?u = "tabulate (length ?t) (\<lambda>i. if d \<le> i \<and> i < d + j then destroyed_slot E (?t ! i) else ?t ! i)"
  have ds: "destroy_slots E ?t d j = Inr ?u"
    using assms(1,2,3) j by (intro destroy_slots_ok) auto
  have "is_Raw (?u ! i) = is_Raw (dst ! i)" if "i < length dst" for i
    using that assms(4)[of i] j by auto
  then show ?thesis using cl j ds
    by (intro exI[of _ c'] exI[of _ ?u]) (simp add: uninitialized_copy_slots_def)
qed

lemma uninitialized_move_slots_ok:
  "first + n \<le> length src \<Longrightarrow> (\<And>i. first \<le> i \<Longrightarrow> i < first + n \<Longrightarrow> is_Live (src ! i)) \<Longrightarrow>
   d + n \<le> length dst \<Longrightarrow> (\<And>i. d \<le> i \<Longrightarrow> i < d + n \<Longrightarrow> is_Raw (dst ! i)) \<Longrightarrow>
   uninitialized_move_slots E src first n dst d =
     Inr (tabulate (length src) (\<lambda>i. if first \<le> i \<and> i < first + n then moved_slot E (src ! i) else src ! i),
          tabulate (length dst) (\<lambda>i. if d \<le> i \<and> i < d + n then src ! (first + (i - d)) else dst ! i))"
proof (induction n arbitrary: first src dst d)
  case 0
  then show ?case by (auto simp: list_eq_iff_nth_eq)
next
  case (Suc n)
  have "is_Live (src ! first)" using Suc.prems(2)[of first] by simp
  then obtain x where x: "src ! first = Live x" by (cases "src ! first") auto
  have r: "read_slot src first = Inr x" using Suc.prems(1) x by (simp add: read_slot_def)
  have cs: "construct_slot dst d x = Inr (dst[d := Live x])"
    using Suc.prems(3,4) by (simp add: construct_slot_def)
  let ?src = "src[first := Live (moved_from E x)]" and ?dst = "dst[d := Live x]"
  have "uninitialized_move_slots E ?src (Suc first) n ?dst (Suc d) =
     Inr (tabulate (length ?src) (\<lambda>i. if Suc first \<le> i \<and> i < Suc first + n then moved_slot E (?src ! i) else ?src ! i),
          tabulate (length ?dst) (\<lambda>i. if Suc d \<le> i \<and> i < Suc d + n then ?src ! (Suc first + (i - Suc d)) else ?dst ! i))"
    using Suc.prems by (intro Suc.IH) (simp_all add: nth_list_update)
  moreover have "tabulate (length ?src) (\<lambda>i. if Suc first \<le> i \<and> i < Suc first + n then moved_slot E (?src ! i) else ?src ! i) =
      tabulate (length src) (\<lambda>i. if first \<le> i \<and> i < first + Suc n then moved_slot E (src ! i) else src ! i)"
  proof (rule tabulate_eqI)
    fix i assume i: "i < length src"
    consider "i < first" | "i = first" | "first < i" by linarith
    then show "tabulate (length ?src) (\<lambda>i. if Suc first \<le> i \<and> i < Suc first + n then moved_slot E (?src ! i) else ?src ! i) ! i =
       (if first \<le> i \<and> i < first + Suc n then moved_slot E (src ! i) else src ! i)"
      using i x by cases simp_all
  qed simp
  moreover have "tabulate (length ?dst) (\<lambda>i. if Suc d \<le> i \<and> i < Suc d + n then ?src ! (Suc first + (i - Suc d)) else ?dst ! i) =
      tabulate (length dst) (\<lambda>i. if d \<le> i \<and> i < d + Suc n then src ! (first + (i - d)) else dst ! i)"
  proof (rule tabulate_eqI)
    fix i assume i: "i < length dst"
    consider "i < d" | "i = d" | "d < i" by linarith
    then show "tabulate (length ?dst) (\<lambda>i. if Suc d \<le> i \<and> i < Suc d + n then ?src ! (Suc first + (i - Suc d)) else ?dst ! i) ! i =
       (if d \<le> i \<and> i < d + Suc n then src ! (first + (i - d)) else dst ! i)"
    proof cases
      case 3
      then have "Suc first + (i - Suc d) = first + (i - d)" by arith
      then show ?thesis using 3 i by simp
    qed (use i x in simp_all)
  qed simp
  ultimately show ?case
    using r cs by simp
qed

lemma move_forward_ok:
  "Suc d + k \<le> length b \<Longrightarrow> (\<And>i. d \<le> i \<Longrightarrow> i \<le> d + k \<Longrightarrow> is_Live (b ! i)) \<Longrightarrow>
   move_forward E b (Suc d) k d =
     Inr (tabulate (length b) (\<lambda>i. if d \<le> i \<and> i < d + k then b ! Suc i
                                   else if i = d + k \<and> 0 < k then moved_slot E (b ! i)
                                   else b ! i))"
proof (induction k arbitrary: b d)
  case 0
  then show ?case by (auto simp: list_eq_iff_nth_eq)
next
  case (Suc k)
  have "is_Live (b ! Suc d)" "is_Live (b ! d)" using Suc.prems(2)[of "Suc d"] Suc.prems(2)[of d] by simp_all
  then obtain x y where x: "b ! Suc d = Live x" and y: "b ! d = Live y"
    by (cases "b ! Suc d"; cases "b ! d") auto
  let ?b = "b[Suc d := Live (moved_from E x), d := Live x]"
  have ma: "move_assign_slot E b (Suc d) d = Inr ?b"
    using Suc.prems(1) x y by (simp add: move_assign_slot_def read_slot_def)
  have "move_forward E ?b (Suc (Suc d)) k (Suc d) =
     Inr (tabulate (length ?b) (\<lambda>i. if Suc d \<le> i \<and> i < Suc d + k then ?b ! Suc i
                                   else if i = Suc d + k \<and> 0 < k then moved_slot E (?b ! i)
                                   else ?b ! i))"
    using Suc.prems by (intro Suc.IH) (simp_all add: nth_list_update)
  moreover have "tabulate (length ?b) (\<lambda>i. if Suc d \<le> i \<and> i < Suc d + k then ?b ! Suc i
                                   else if i = Suc d + k \<and> 0 < k then moved_slot E (?b ! i)
                                   else ?b ! i) =
      tabulate (length b) (\<lambda>i. if d \<le> i \<and> i < d + Suc k then b ! Suc i
                                   else if i = d + Suc k \<and> 0 < Suc k then moved_slot E (b ! i)
                                   else b ! i)"
  proof (rule tabulate_eqI)
    fix i assume i: "i < length b"
    consider "i < d" | "i = d" | "i = Suc d" | "Suc d < i"  by linarith
    then show "tabulate (length ?b) (\<lambda>i. if Suc d \<le> i \<and> i < Suc d + k then ?b ! Suc i
                                   else if i = Suc d + k \<and> 0 < k then moved_slot E (?b ! i)
                                   else ?b ! i) ! i =
       (if d \<le> i \<and> i < d + Suc k then b ! Suc i
                                   else if i = d + Suc k \<and> 0 < Suc k then moved_slot E (b ! i)
                                   else b ! i)"
    proof cases
      case 1 then show ?thesis using i by simp
    next
      case 2 then show ?thesis using i x Suc.prems(1) by simp
    next
      case 3 then show ?thesis using i x by (cases k) simp_all
    next
      case 4 then show ?thesis using i by simp
    qed
  qed simp
  ultimately show ?case
    using ma by simp
qed

lemma move_back_ok:
  "k \<le> lst \<Longrightarrow> lst < length b \<Longrightarrow> (\<And>i. lst - k \<le> i \<Longrightarrow> i \<le> lst \<Longrightarrow> is_Live (b ! i)) \<Longrightarrow>
   move_back E b k lst (Suc lst) =
     Inr (tabulate (length b) (\<lambda>i. if lst - k < i \<and> i \<le> lst then b ! (i - 1)
                                   else if i = lst - k \<and> 0 < k then moved_slot E (b ! i)
                                   else b ! i))"
proof (induction k arbitrary: b lst)
  case 0
  then show ?case by (auto simp: list_eq_iff_nth_eq)
next
  case (Suc k)
  then obtain l where l: "lst = Suc l" by (cases lst) auto
  have "is_Live (b ! l)" "is_Live (b ! Suc l)" using Suc.prems(3)[of l] Suc.prems(3)[of "Suc l"] l by simp_all
  then obtain x y where x: "b ! l = Live x" and y: "b ! Suc l = Live y"
    by (cases "b ! l"; cases "b ! Suc l") auto
  let ?b = "b[l := Live (moved_from E x), Suc l := Live x]"
  have ma: "move_assign_slot E b l (Suc l) = Inr ?b"
    using Suc.prems(2) l x y by (simp add: move_assign_slot_def read_slot_def)
  have "move_back E ?b k l (Suc l) =
     Inr (tabulate (length ?b) (\<lambda>i. if l - k < i \<and> i \<le> l then ?b ! (i - 1)
                                   else if i = l - k \<and> 0 < k then moved_slot E (?b ! i)
                                   else ?b ! i))"
  proof (rule Suc.IH)
    fix i assume "l - k \<le> i" "i \<le> l"
    then show "is_Live (?b ! i)" using Suc.prems(3)[of i] Suc.prems(2) l by (auto simp: nth_list_update)
  qed (use Suc.prems l in simp_all)
  moreover have "tabulate (length ?b) (\<lambda>i. if l - k < i \<and> i \<le> l then ?b ! (i - 1)
                                   else if i = l - k \<and> 0 < k then moved_slot E (?b ! i)
                                   else ?b ! i) =
      tabulate (length b) (\<lambda>i. if lst - Suc k < i \<and> i \<le> lst then b ! (i - 1)
                                   else if i = lst - Suc k \<and> 0 < Suc k then moved_slot E (b ! i)
                                   else b ! i)"
  proof (rule tabulate_eqI)
    fix i assume i: "i < length b"
    have kl: "k \<le> l" using Suc.prems(1) l by simp
    consider "i < l - k" | "i = l - k" "i < l" | "i = l" | "l - k < i" "i < l" | "i = Suc l" | "Suc l < i" by linarith
    then show "tabulate (length ?b) (\<lambda>i. if l - k < i \<and> i \<le> l then ?b ! (i - 1)
                                   else if i = l - k \<and> 0 < k then moved_slot E (?b ! i)
                                   else ?b ! i) ! i =
       (if lst - Suc k < i \<and> i \<le> lst then b ! (i - 1)
                                   else if i = lst - Suc k \<and> 0 < Suc k then moved_slot E (b ! i)
                                   else b ! i)"
    proof cases
      case 1 then show ?thesis using i l kl by simp
    next
      case 2
      then have "0 < k" by arith
      then show ?thesis using 2 i l kl by simp
    next
      case 3 then show ?thesis using i l kl x by (cases k) simp_all
    next
      case 4 then show ?thesis using i l kl by simp
    next
      case 5
      have "l - k < Suc l" by arith
      then show ?thesis using 5 i l kl x by simp
    next
      case 6 then show ?thesis using i l kl by simp
    qed
  qed simp
  ultimately show ?case
    using ma l by simp
qed

section \<open>Pointers, allocation and release\<close>

lemma slots_copies [simp]: "slots (w\<lparr>copies := c\<rparr>) m = slots w m"
  by (simp add: slots_def split: option.splits)

lemma owns_copies [simp]: "owns (w\<lparr>copies := c\<rparr>) m = owns w m"
  by (simp add: owns_def split: option.splits)

lemma put_slots_copies [simp]: "put_slots m b (w\<lparr>copies := c\<rparr>) = (put_slots m b w)\<lparr>copies := c\<rparr>"
  by (simp add: put_slots_def split: option.splits)

lemma copies_put_slots [simp]: "copies (put_slots m b w) = copies w"
  by (simp add: put_slots_def split: option.splits)

lemma brk_put_slots [simp]: "brk (put_slots m b w) = brk w"
  by (simp add: put_slots_def split: option.splits)

lemma length_slots: "owns w m \<Longrightarrow> length (slots w m) = m_capacity m"
  by (auto simp: owns_def slots_def split: option.splits)

lemma slots_put_slots_same: "owns w m \<Longrightarrow> length b = m_capacity m \<Longrightarrow> slots (put_slots m b w) m = b"
  by (auto simp: owns_def slots_def put_slots_def split: option.splits)

lemma slots_put_slots_other: "m_buffer m' \<noteq> m_buffer m \<Longrightarrow> slots (put_slots m b w) m' = slots w m'"
  by (auto simp: slots_def put_slots_def split: option.splits)

lemma owns_put_slots_same: "owns w m \<Longrightarrow> length b = m_capacity m \<Longrightarrow> owns (put_slots m b w) m"
  by (auto simp: owns_def put_slots_def split: option.splits)

lemma owns_put_slots_other: "m_buffer m' \<noteq> m_buffer m \<Longrightarrow> owns (put_slots m b w) m' = owns w m'"
  by (auto simp: owns_def put_slots_def split: option.splits)

lemma slots_dtor_other: "m_buffer m' \<noteq> m_buffer m \<Longrightarrow> slots (RawMemory_dtor m w) m' = slots w m'"
  by (auto simp: slots_def RawMemory_dtor_def Deallocate_def split: option.splits)

lemma owns_dtor_other: "m_buffer m' \<noteq> m_buffer m \<Longrightarrow> owns (RawMemory_dtor m w) m' = owns w m'"
  by (auto simp: owns_def RawMemory_dtor_def Deallocate_def split: option.splits)

lemma copies_dtor [simp]: "copies (RawMemory_dtor m w) = copies w"
  by (simp add: RawMemory_dtor_def Deallocate_def split: option.splits)

lemma brk_dtor [simp]: "brk (RawMemory_dtor m w) = brk w"
  by (simp add: RawMemory_dtor_def Deallocate_def split: option.splits)


lemma fits_mono: "fits E n \<Longrightarrow> m \<le> n \<Longrightarrow> fits E m"
proof -
  assume f: "fits E n" and m: "m \<le> n"
  have "m * size_of E \<le> n * size_of E" using m by simp
  also have "\<dots> < 2 ^ size_t_bits E" using f by (simp add: fits_def)
  finally show ?thesis using f by (simp add: fits_def)
qed

lemma size_t_mul_fits: "fits E n \<Longrightarrow> size_t_mul E n (size_of E) = n * size_of E"
  by (simp add: fits_def size_t_mul_def)

lemma size_t_mul_double: "fits E (m * 2) \<Longrightarrow> size_t_mul E m 2 = m * 2"
proof -
  assume f: "fits E (m * 2)"
  then have "m * 2 * 1 \<le> m * 2 * size_of E" by (intro mult_le_mono2) (simp add: fits_def)
  also have "\<dots> < 2 ^ size_t_bits E" using f by (simp add: fits_def)
  finally show ?thesis by (simp add: size_t_mul_def)
qed

lemma RawMemory_new_ok:
  "n \<noteq> 0 \<Longrightarrow> fits E n \<Longrightarrow> \<not> new_throws E (n * size_of E) \<Longrightarrow>
   RawMemory_new E n w = (Inr (fresh w n), grown E w n)"
  by (simp add: RawMemory_new_def Allocate_def operator_new_def size_t_mul_fits fresh_def grown_def)
    (simp add: fits_def)

lemma fresh_simps [simp]: "m_capacity (fresh w n) = n" "m_buffer (fresh w n) = Some (brk w)"
  by (simp_all add: fresh_def)

lemma grown_simps [simp]: "copies (grown E w n) = copies w" "brk (grown E w n) = Suc (brk w)"
  "owns (grown E w n) (fresh w n)"
  "slots (grown E w n) (fresh w n) = tabulate n (\<lambda>i. Raw (fresh_bytes E (brk w) i))"
  by (simp_all add: fresh_def grown_def owns_def slots_def tabulate_def)

lemma owns_not_fresh: "owns w m \<Longrightarrow> m_buffer m \<noteq> Some (brk w)"
  by (auto simp: owns_def split: option.splits)

lemma owns_grown: "owns w m \<Longrightarrow> owns (grown E w n) m"
  by (auto simp: owns_def grown_def split: option.splits)

lemma slots_grown: "owns w m \<Longrightarrow> slots (grown E w n) m = slots w m"
  by (auto simp: owns_def slots_def grown_def split: option.splits)

lemma live_prefix_iff:
  fixes xs :: "'a slot list"
  assumes "s \<le> C"
  shows "(\<forall>i<C. is_Live (xs ! i) = (i < s)) \<longleftrightarrow>
         (\<forall>i<s. is_Live (xs ! i)) \<and> (\<forall>i<C - s. is_Raw (xs ! (s + i)))"
proof
  assume L: "\<forall>i<C. is_Live (xs ! i) = (i < s)"
  have "\<forall>i<s. is_Live (xs ! i)" using L assms by auto
  moreover have "\<forall>i<C - s. is_Raw (xs ! (s + i))"
  proof (intro allI impI)
    fix i assume "i < C - s"
    then have "s + i < C" by arith
    then have "is_Live (xs ! (s + i)) = (s + i < s)" using L by blast
    then show "is_Raw (xs ! (s + i))" by (simp add: is_Live_iff)
  qed
  ultimately show "(\<forall>i<s. is_Live (xs ! i)) \<and> (\<forall>i<C - s. is_Raw (xs ! (s + i)))" by blast
next
  assume R: "(\<forall>i<s. is_Live (xs ! i)) \<and> (\<forall>i<C - s. is_Raw (xs ! (s + i)))"
  show "\<forall>i<C. is_Live (xs ! i) = (i < s)"
  proof (intro allI impI)
    fix i assume i: "i < C"
    show "is_Live (xs ! i) = (i < s)"
    proof (cases "i < s")
      case True then show ?thesis using R by simp
    next
      case False
      then have "i - s < C - s" "s + (i - s) = i" using i by arith+
      then have "is_Raw (xs ! i)" using R by metis
      then show ?thesis using False by (simp add: is_Live_iff)
    qed
  qed
qed

lemma invariant_iff:
  "invariant w v \<longleftrightarrow>
     m_size v \<le> m_capacity (m_data v) \<and> owns w (m_data v) \<and>
     (\<forall>i<m_capacity (m_data v). is_Live (slots w (m_data v) ! i) = (i < m_size v))"
proof (cases "m_size v \<le> m_capacity (m_data v) \<and> owns w (m_data v)")
  case True
  then have len: "length (slots w (m_data v)) = m_capacity (m_data v)" by (simp add: length_slots)
  have m: "min (m_capacity (m_data v)) (m_size v) = m_size v" using True by simp
  show ?thesis
    using True len m live_prefix_iff[of "m_size v" "m_capacity (m_data v)" "slots w (m_data v)"]
    by (simp add: invariant_def Capacity_def RawMemory_Capacity_def list_all_length)
next
  case False
  then show ?thesis by (auto simp: invariant_def Capacity_def RawMemory_Capacity_def)
qed

lemma destroy_n_ok:
  assumes "owns w m" "first + n \<le> m_capacity m" "\<And>i. first \<le> i \<Longrightarrow> i < first + n \<Longrightarrow> is_Live (slots w m ! i)"
  shows "destroy_n E m first n w =
    (None, put_slots m (tabulate (m_capacity m)
       (\<lambda>i. if first \<le> i \<and> i < first + n then destroyed_slot E (slots w m ! i) else slots w m ! i)) w)"
  using assms by (simp add: destroy_n_def on_slots_def destroy_slots_ok length_slots)

lemma relocate_ok:
  assumes "owns w src" "owns w dst" "m_buffer src \<noteq> m_buffer dst"
    and "first + n \<le> m_capacity src" "\<And>i. first \<le> i \<Longrightarrow> i < first + n \<Longrightarrow> is_Live (slots w src ! i)"
    and "d + n \<le> m_capacity dst" "\<And>i. d \<le> i \<Longrightarrow> i < d + n \<Longrightarrow> is_Raw (slots w dst ! i)"
    and "\<And>k. \<not> relocates_by_move E \<Longrightarrow> k < n \<Longrightarrow> \<not> copy_throws E (copies w + k)"
  shows "\<exists>w'. (if relocates_by_move E then uninitialized_move_n E src first n dst d w
               else uninitialized_copy_n E src first n dst d w) = (None, w') \<and>
           slots w' dst = tabulate (m_capacity dst)
              (\<lambda>i. if d \<le> i \<and> i < d + n then slots w src ! (first + (i - d)) else slots w dst ! i) \<and>
           (\<forall>i<m_capacity src. is_Live (slots w' src ! i) = is_Live (slots w src ! i)) \<and>
           (\<forall>i<m_capacity src. i < first \<or> first + n \<le> i \<longrightarrow> slots w' src ! i = slots w src ! i) \<and>
           owns w' src \<and> owns w' dst \<and> brk w' = brk w \<and>
           copies w' = copies w + (if relocates_by_move E then 0 else n)"
proof (cases "relocates_by_move E")
  case True
  let ?bs = "tabulate (length (slots w src)) (\<lambda>i. if first \<le> i \<and> i < first + n then moved_slot E (slots w src ! i) else slots w src ! i)"
  let ?bd = "tabulate (length (slots w dst)) (\<lambda>i. if d \<le> i \<and> i < d + n then slots w src ! (first + (i - d)) else slots w dst ! i)"
  let ?w = "put_slots dst ?bd (put_slots src ?bs w)"
  have "uninitialized_move_slots E (slots w src) first n (slots w dst) d = Inr (?bs, ?bd)"
    using assms by (intro uninitialized_move_slots_ok) (simp_all add: length_slots)
  then have "uninitialized_move_n E src first n dst d w = (None, ?w)"
    by (simp add: uninitialized_move_n_def)
  moreover have "slots ?w dst = ?bd"
    using assms(1,2,3) by (simp add: slots_put_slots_same owns_put_slots_other length_slots)
  moreover have "slots ?w src = ?bs"
    using assms(1,2,3) by (simp add: slots_put_slots_same slots_put_slots_other length_slots)
  moreover have "owns ?w src" "owns ?w dst"
    using assms(1,2,3) by (simp_all add: owns_put_slots_same owns_put_slots_other length_slots)
  moreover have "\<And>i. first \<le> i \<Longrightarrow> i < first + n \<Longrightarrow> is_Live (slots w src ! i)" using assms(5) .
  ultimately show ?thesis using True assms(1,2) by (auto simp: length_slots)
next
  case False
  let ?bd = "tabulate (length (slots w dst)) (\<lambda>i. if d \<le> i \<and> i < d + n then slots w src ! (first + (i - d)) else slots w dst ! i)"
  let ?w = "put_slots dst ?bd (w\<lparr>copies := copies w + n\<rparr>)"
  have "uninitialized_copy_slots E (slots w src) first n (slots w dst) d (copies w) = (None, ?bd, copies w + n)"
    using assms False by (intro uninitialized_copy_slots_ok) (simp_all add: length_slots)
  then have "uninitialized_copy_n E src first n dst d w = (None, ?w)"
    by (simp add: uninitialized_copy_n_def)
  moreover have "slots ?w dst = ?bd"
    using assms(1,2,3) by (simp add: slots_put_slots_same length_slots)
  moreover have "slots ?w src = slots w src"
    using assms(1,2,3) by (simp add: slots_put_slots_other)
  moreover have "owns ?w src" "owns ?w dst"
    using assms(1,2,3) by (simp_all add: owns_put_slots_same owns_put_slots_other length_slots)
  ultimately show ?thesis using False assms(1,2) by (auto simp: length_slots)
qed

text \<open>A copy that throws leaves every allocation but the destination as it was.\<close>

lemma copy_fails:
  assumes "owns w src" "owns w dst" "m_buffer src \<noteq> m_buffer dst"
    and "first + n \<le> m_capacity src" "\<And>i. first \<le> i \<Longrightarrow> i < first + n \<Longrightarrow> is_Live (slots w src ! i)"
    and "d + n \<le> m_capacity dst" "\<And>i. d \<le> i \<Longrightarrow> i < d + n \<Longrightarrow> is_Raw (slots w dst ! i)"
    and "k < n" "copy_throws E (copies w + k)"
  shows "\<exists>w'. uninitialized_copy_n E src first n dst d w = (Some CopyThrew, w') \<and>
           copies w < copies w' \<and> copies w' \<le> copies w + n \<and> brk w' = brk w \<and> owns w' dst \<and>
           (\<forall>m'. m_buffer m' \<noteq> m_buffer dst \<longrightarrow> owns w' m' = owns w m' \<and> slots w' m' = slots w m')"
proof -
  have "\<exists>c' dst'. copies w < c' \<and> c' \<le> copies w + n \<and>
     uninitialized_copy_slots E (slots w src) first n (slots w dst) d (copies w) = (Some CopyThrew, dst', c') \<and>
     length dst' = length (slots w dst) \<and> (\<forall>i<length (slots w dst). is_Raw (dst' ! i) = is_Raw (slots w dst ! i))"
    using assms by (intro uninitialized_copy_slots_throws) (simp_all add: length_slots)
  then obtain c' dst' where c': "copies w < c'" "c' \<le> copies w + n"
    "uninitialized_copy_slots E (slots w src) first n (slots w dst) d (copies w) = (Some CopyThrew, dst', c')"
    "length dst' = length (slots w dst)"
    by blast
  let ?w = "put_slots dst dst' (w\<lparr>copies := c'\<rparr>)"
  have "uninitialized_copy_n E src first n dst d w = (Some CopyThrew, ?w)"
    using c' by (simp add: uninitialized_copy_n_def)
  moreover have "owns ?w dst"
    using assms(2) c'(4) by (simp add: owns_put_slots_same length_slots)
  moreover have "\<forall>m'. m_buffer m' \<noteq> m_buffer dst \<longrightarrow> owns ?w m' = owns w m' \<and> slots ?w m' = slots w m'"
    by (simp add: owns_put_slots_other slots_put_slots_other)
  ultimately show ?thesis using c'(1,2) by (intro exI[of _ ?w]) simp
qed

section \<open>The operations of Vector when nothing throws, and growth when a copy throws\<close>

lemma invariant_transfer:
  "invariant w v \<Longrightarrow> owns w' (m_data v) \<Longrightarrow> slots w' (m_data v) = slots w (m_data v) \<Longrightarrow> invariant w' v"
  by (simp add: invariant_iff)

lemma construct_ok:
  assumes "owns w m" "i < m_capacity m" "is_Raw (slots w m ! i)" "run_ctor E args (copies w) = (Inr x, c)"
  shows "construct E args m i w = (None, (put_slots m ((slots w m)[i := Live x]) w)\<lparr>copies := c\<rparr>)"
  using assms by (simp add: construct_def on_slots_def construct_slot_def length_slots)

lemma RawMemory_new_fresh:
  assumes "n \<noteq> 0" "fits E n" "\<not> new_throws E (n * size_of E)" "owns w m"
  shows "\<exists>nd w1. RawMemory_new E n w = (Inr nd, w1) \<and> m_capacity nd = n \<and> owns w1 nd \<and>
           slots w1 nd = tabulate n (\<lambda>i. Raw (fresh_bytes E (brk w) i)) \<and>
           m_buffer m \<noteq> m_buffer nd \<and> owns w1 m \<and>
           slots w1 m = slots w m \<and> copies w1 = copies w"
  using assms by (intro exI[of _ "fresh w n"] exI[of _ "grown E w n"])
    (simp add: RawMemory_new_ok owns_not_fresh owns_grown slots_grown)

lemma dtor_other:
  assumes "m_buffer m \<noteq> m_buffer nd" "owns w m"
  shows "owns (RawMemory_dtor nd w) m \<and> slots (RawMemory_dtor nd w) m = slots w m"
  using assms by (simp add: owns_dtor_other slots_dtor_other)

lemma Reserve_copy_fails:
  assumes nm: "\<not> relocates_by_move E" and inv: "invariant w v"
    and grow: "Capacity v < n" "fits E n" "\<not> new_throws E (n * size_of E)"
    and thr: "k < m_size v" "copy_throws E (copies w + k)"
  shows "\<exists>w'. Reserve E n v w = (Some CopyThrew, v, w') \<and>
           slots w' (m_data v) = slots w (m_data v) \<and> invariant w' v"
proof -
  from inv have sz: "m_size v \<le> m_capacity (m_data v)" and ow: "owns w (m_data v)"
    and live: "\<And>i. i < m_capacity (m_data v) \<Longrightarrow> is_Live (slots w (m_data v) ! i) = (i < m_size v)"
    by (simp_all add: invariant_iff)
  have cap: "m_capacity (m_data v) < n" using grow(1) by (simp add: Capacity_def RawMemory_Capacity_def)
  then have "n \<noteq> 0" by simp
  from RawMemory_new_fresh[OF this grow(2,3) ow] obtain nd w1 where
    new: "RawMemory_new E n w = (Inr nd, w1)" and nd: "m_capacity nd = n" "owns w1 nd"
    "slots w1 nd = tabulate n (\<lambda>i. Raw (fresh_bytes E (brk w) i))" and ne: "m_buffer (m_data v) \<noteq> m_buffer nd"
    and w1: "owns w1 (m_data v)" "slots w1 (m_data v) = slots w (m_data v)" "copies w1 = copies w"
    by blast
  have "\<exists>w2. uninitialized_copy_n E (m_data v) 0 (m_size v) nd 0 w1 = (Some CopyThrew, w2) \<and>
           copies w1 < copies w2 \<and> copies w2 \<le> copies w1 + m_size v \<and> brk w2 = brk w1 \<and> owns w2 nd \<and>
           (\<forall>m'. m_buffer m' \<noteq> m_buffer nd \<longrightarrow> owns w2 m' = owns w1 m' \<and> slots w2 m' = slots w1 m')"
  proof (rule copy_fails[where k = k])
    show "\<And>i. 0 \<le> i \<Longrightarrow> i < 0 + m_size v \<Longrightarrow> is_Live (slots w1 (m_data v) ! i)"
      using live sz by (simp add: w1)
    show "\<And>i. 0 \<le> i \<Longrightarrow> i < 0 + m_size v \<Longrightarrow> is_Raw (slots w1 nd ! i)"
      using sz cap by (simp add: nd)
  qed (use sz cap thr nd ne w1 in simp_all)
  then obtain w2 where cf: "uninitialized_copy_n E (m_data v) 0 (m_size v) nd 0 w1 = (Some CopyThrew, w2)"
    and w2: "owns w2 (m_data v)" "slots w2 (m_data v) = slots w (m_data v)"
    using ne w1 by auto
  define w' where "w' = RawMemory_dtor nd w2"
  have res: "Reserve E n v w = (Some CopyThrew, v, w')"
    using cap new cf nm by (simp add: Reserve_def CopyOrMoveAndSwap_def RawMemory_Capacity_def w'_def)
  have "owns w' (m_data v) \<and> slots w' (m_data v) = slots w2 (m_data v)"
    unfolding w'_def using ne w2 by (intro dtor_other) simp_all
  then have o: "owns w' (m_data v)" and sl: "slots w' (m_data v) = slots w (m_data v)"
    using w2 by simp_all
  have "invariant w' v" using inv o sl by (rule invariant_transfer)
  then show ?thesis using res sl by blast
qed

lemma construct_step:
  assumes "owns w m" "i < m_capacity m" "is_Raw (slots w m ! i)" "run_ctor E args (copies w) = (Inr x, c)"
  shows "\<exists>w'. construct E args m i w = (None, w') \<and> owns w' m \<and>
           slots w' m = (slots w m)[i := Live x] \<and> copies w' = c \<and> brk w' = brk w \<and>
           (\<forall>m'. m_buffer m' \<noteq> m_buffer m \<longrightarrow> owns w' m' = owns w m' \<and> slots w' m' = slots w m')"
  using assms
  by (intro exI[of _ "(put_slots m ((slots w m)[i := Live x]) w)\<lparr>copies := c\<rparr>"])
    (simp add: construct_ok owns_put_slots_same owns_put_slots_other slots_put_slots_same
      slots_put_slots_other length_slots)

lemma EmplaceBack_copy_fails:
  assumes nm: "\<not> relocates_by_move E" and inv: "invariant w v"
    and grow: "m_size v = Capacity v" "fits E (m_size v * 2)"
      "\<not> new_throws E ((if m_size v = 0 then 1 else m_size v * 2) * size_of E)"
    and ctor: "run_ctor E args (copies w) = (Inr x, c0)"
    and thr: "k < m_size v" "copy_throws E (c0 + k)"
  shows "\<exists>w'. EmplaceBack E args v w = (Inl CopyThrew, v, w') \<and>
           slots w' (m_data v) = slots w (m_data v) \<and> invariant w' v"
proof -
  from inv have sz: "m_size v \<le> m_capacity (m_data v)" and ow: "owns w (m_data v)"
    and live: "\<And>i. i < m_capacity (m_data v) \<Longrightarrow> is_Live (slots w (m_data v) ! i) = (i < m_size v)"
    by (simp_all add: invariant_iff)
  define n where "n = (if m_size v = 0 then 1 else size_t_mul E (m_size v) 2)"
  have nz: "m_size v \<noteq> 0" using thr(1) by simp
  have n2: "n = m_size v * 2" using nz grow(2) by (simp add: n_def size_t_mul_double)
  have n: "m_size v < n" "n \<noteq> 0" using nz by (simp_all add: n2)
  have ft: "fits E n" using grow(2) by (simp add: n2)
  have nt: "\<not> new_throws E (n * size_of E)" using grow(3) nz by (simp add: n2)
  from RawMemory_new_fresh[OF n(2) ft nt ow] obtain nd w1 where
    new: "RawMemory_new E n w = (Inr nd, w1)" and nd: "m_capacity nd = n" "owns w1 nd"
    "slots w1 nd = tabulate n (\<lambda>i. Raw (fresh_bytes E (brk w) i))" and ne: "m_buffer (m_data v) \<noteq> m_buffer nd"
    and w1: "owns w1 (m_data v)" "slots w1 (m_data v) = slots w (m_data v)" "copies w1 = copies w"
    by blast
  have "\<exists>w2. construct E args nd (m_size v) w1 = (None, w2) \<and> owns w2 nd \<and>
           slots w2 nd = (slots w1 nd)[m_size v := Live x] \<and> copies w2 = c0 \<and> brk w2 = brk w1 \<and>
           (\<forall>m'. m_buffer m' \<noteq> m_buffer nd \<longrightarrow> owns w2 m' = owns w1 m' \<and> slots w2 m' = slots w1 m')"
    using n nd ctor w1 by (intro construct_step) simp_all
  then obtain w2 where con: "construct E args nd (m_size v) w1 = (None, w2)"
    and w2: "owns w2 nd" "slots w2 nd = (tabulate n (\<lambda>i. Raw (fresh_bytes E (brk w) i)))[m_size v := Live x]"
      "copies w2 = c0" "owns w2 (m_data v)" "slots w2 (m_data v) = slots w (m_data v)"
    using ne nd w1 by auto
  have "\<exists>w3. uninitialized_copy_n E (m_data v) 0 (m_size v) nd 0 w2 = (Some CopyThrew, w3) \<and>
           copies w2 < copies w3 \<and> copies w3 \<le> copies w2 + m_size v \<and> brk w3 = brk w2 \<and> owns w3 nd \<and>
           (\<forall>m'. m_buffer m' \<noteq> m_buffer nd \<longrightarrow> owns w3 m' = owns w2 m' \<and> slots w3 m' = slots w2 m')"
  proof (rule copy_fails[where k = k])
    show "\<And>i. 0 \<le> i \<Longrightarrow> i < 0 + m_size v \<Longrightarrow> is_Live (slots w2 (m_data v) ! i)"
      using live sz by (simp add: w2)
    show "\<And>i. 0 \<le> i \<Longrightarrow> i < 0 + m_size v \<Longrightarrow> is_Raw (slots w2 nd ! i)"
      using n by (simp add: w2)
  qed (use sz n thr nd ne w2 in simp_all)
  then obtain w3 where cf: "uninitialized_copy_n E (m_data v) 0 (m_size v) nd 0 w2 = (Some CopyThrew, w3)"
    and w3: "owns w3 (m_data v)" "slots w3 (m_data v) = slots w (m_data v)"
    using ne w2 by auto
  define w' where "w' = RawMemory_dtor nd w3"
  have res: "EmplaceBack E args v w = (Inl CopyThrew, v, w')"
    using grow(1) new con cf nm unfolding EmplaceBack_def CopyOrMoveAndSwap_def n_def[symmetric] w'_def
    by simp
  have "owns w' (m_data v) \<and> slots w' (m_data v) = slots w3 (m_data v)"
    unfolding w'_def using ne w3 by (intro dtor_other) simp_all
  then have o: "owns w' (m_data v)" and sl: "slots w' (m_data v) = slots w (m_data v)"
    using w3 by simp_all
  have "invariant w' v" using inv o sl by (rule invariant_transfer)
  then show ?thesis using res sl by blast
qed

lemma holds_invariant: "holds w v xs \<Longrightarrow> invariant w v"
proof -
  assume h: "holds w v xs"
  have "is_Live (slots w (m_data v) ! i) = (i < m_size v)" if "i < m_capacity (m_data v)" for i
  proof (cases "i < length xs")
    case True then show ?thesis using h by (simp add: holds_def)
  next
    case False
    then have "is_Raw (slots w (m_data v) ! i)" using h that by (simp add: holds_def)
    then show ?thesis using False h by (simp add: holds_def is_Live_iff)
  qed
  then show ?thesis using h by (simp add: holds_def invariant_iff)
qed

lemma holds_elements: "holds w v xs \<Longrightarrow> elements w v = xs"
  by (auto simp: holds_def elements_def list_eq_iff_nth_eq length_slots)

lemma invariant_holds: "invariant w v \<Longrightarrow> holds w v (elements w v)"
proof -
  assume inv: "invariant w v"
  then have sz: "m_size v \<le> m_capacity (m_data v)" and ow: "owns w (m_data v)"
    and live: "\<And>i. i < m_capacity (m_data v) \<Longrightarrow> is_Live (slots w (m_data v) ! i) = (i < m_size v)"
    by (simp_all add: invariant_iff)
  have len: "length (elements w v) = m_size v"
    using sz ow by (simp add: elements_def length_slots)
  have "slots w (m_data v) ! i = Live (elements w v ! i)" if "i < length (elements w v)" for i
  proof -
    have "is_Live (slots w (m_data v) ! i)" using live[of i] that len sz by simp
    then show ?thesis using that len sz ow by (cases "slots w (m_data v) ! i") (auto simp: elements_def length_slots)
  qed
  moreover have "is_Raw (slots w (m_data v) ! i)" if "length (elements w v) \<le> i" "i < m_capacity (m_data v)" for i
    using live[of i] that len by (simp add: is_Live_iff)
  ultimately show ?thesis using sz ow len by (simp add: holds_def)
qed

lemma holds_iff: "holds w v xs \<longleftrightarrow> invariant w v \<and> elements w v = xs"
  using holds_invariant holds_elements invariant_holds by blast

lemma run_ctor_ok: "(\<And>k. \<not> copy_throws E k) \<Longrightarrow> \<exists>c'. run_ctor E args c = (Inr (value_of args), c')"
  by (cases args) simp_all

lemma RawMemory_Swap_eq: "RawMemory_Swap a b = (b, a)"
  by (simp add: RawMemory_Swap_def)

lemma CopyOrMoveAndSwap_ok:
  assumes h: "holds w v es" and nd: "owns w nd" "m_buffer (m_data v) \<noteq> m_buffer nd"
    "length es \<le> m_capacity nd" "\<And>i. i < length es \<Longrightarrow> is_Raw (slots w nd ! i)"
    and nt: "\<And>k. \<not> copy_throws E k"
  shows "\<exists>w'. CopyOrMoveAndSwap E nd v w = (None, m_data v, v\<lparr>m_data := nd\<rparr>, w') \<and>
           owns w' nd \<and> owns w' (m_data v) \<and>
           (\<forall>i<m_capacity nd. slots w' nd ! i = (if i < length es then Live (es ! i) else slots w nd ! i))"
proof -
  from h have ow: "owns w (m_data v)" and sz: "m_size v = length es" "length es \<le> m_capacity (m_data v)"
    and sl: "\<And>i. i < length es \<Longrightarrow> slots w (m_data v) ! i = Live (es ! i)"
      "\<And>i. length es \<le> i \<Longrightarrow> i < m_capacity (m_data v) \<Longrightarrow> is_Raw (slots w (m_data v) ! i)"
    by (simp_all add: holds_def)
  have "\<exists>w'. (if relocates_by_move E then uninitialized_move_n E (m_data v) 0 (length es) nd 0 w
               else uninitialized_copy_n E (m_data v) 0 (length es) nd 0 w) = (None, w') \<and>
           slots w' nd = tabulate (m_capacity nd)
              (\<lambda>i. if 0 \<le> i \<and> i < 0 + length es then slots w (m_data v) ! (0 + (i - 0)) else slots w nd ! i) \<and>
           (\<forall>i<m_capacity (m_data v). is_Live (slots w' (m_data v) ! i) = is_Live (slots w (m_data v) ! i)) \<and>
           (\<forall>i<m_capacity (m_data v). i < 0 \<or> 0 + length es \<le> i \<longrightarrow> slots w' (m_data v) ! i = slots w (m_data v) ! i) \<and>
           owns w' (m_data v) \<and> owns w' nd \<and> brk w' = brk w \<and>
           copies w' = copies w + (if relocates_by_move E then 0 else length es)"
    using ow nd sz sl nt by (intro relocate_ok) simp_all
  then obtain w1 where r: "(if relocates_by_move E then uninitialized_move_n E (m_data v) 0 (length es) nd 0 w
               else uninitialized_copy_n E (m_data v) 0 (length es) nd 0 w) = (None, w1)"
    and s1: "\<And>i. i < m_capacity nd \<Longrightarrow> slots w1 nd ! i = (if i < length es then slots w (m_data v) ! i else slots w nd ! i)"
    and l1: "\<And>i. i < m_capacity (m_data v) \<Longrightarrow> is_Live (slots w1 (m_data v) ! i) = is_Live (slots w (m_data v) ! i)"
    and o1: "owns w1 (m_data v)" "owns w1 nd"
    by auto
  define w2 where "w2 = put_slots (m_data v) (tabulate (m_capacity (m_data v))
       (\<lambda>i. if 0 \<le> i \<and> i < 0 + length es then destroyed_slot E (slots w1 (m_data v) ! i) else slots w1 (m_data v) ! i)) w1"
  have d: "destroy_n E (m_data v) 0 (length es) w1 = (None, w2)"
    unfolding w2_def using o1 sz l1 sl by (intro destroy_n_ok) simp_all
  have res: "CopyOrMoveAndSwap E nd v w = (None, m_data v, v\<lparr>m_data := nd\<rparr>, w2)"
    unfolding CopyOrMoveAndSwap_def sz(1) r using d by (simp add: RawMemory_Swap_eq)
  have o2: "owns w2 nd" "owns w2 (m_data v)"
    unfolding w2_def using o1 nd(2) by (simp_all add: owns_put_slots_other owns_put_slots_same)
  have "slots w2 nd = slots w1 nd"
    unfolding w2_def using nd(2) by (simp add: slots_put_slots_other)
  then have "\<forall>i<m_capacity nd. slots w2 nd ! i = (if i < length es then Live (es ! i) else slots w nd ! i)"
    using s1 sl sz by simp
  then show ?thesis using res o2 by blast
qed

lemma holds_transfer:
  "holds w v es \<Longrightarrow> owns w' (m_data v) \<Longrightarrow> slots w' (m_data v) = slots w (m_data v) \<Longrightarrow> holds w' v es"
  by (simp add: holds_def)

lemma holdsI:
  assumes "owns w (m_data v)" "m_size v = length xs" "length xs \<le> m_capacity (m_data v)"
    "\<And>i. i < m_capacity (m_data v) \<Longrightarrow> slots w (m_data v) ! i = (if i < length xs then Live (xs ! i) else Raw (r i))"
  shows "holds w v xs"
  using assms by (simp add: holds_def)

lemma holdsI2:
  assumes "owns w (m_data v)" "m_size v = length xs" "length xs \<le> m_capacity (m_data v)"
    "\<And>i. i < length xs \<Longrightarrow> slots w (m_data v) ! i = Live (xs ! i)"
    "\<And>i. length xs \<le> i \<Longrightarrow> i < m_capacity (m_data v) \<Longrightarrow> is_Raw (slots w (m_data v) ! i)"
  shows "holds w v xs"
  using assms by (simp add: holds_def)

lemma nth_inserted:
  "pos \<le> length es \<Longrightarrow> i \<le> length es \<Longrightarrow>
   (take pos es @ x # drop pos es) ! i = (if i < pos then es ! i else if i = pos then x else es ! (i - 1))"
proof -
  assume p: "pos \<le> length es" and i: "i \<le> length es"
  consider "i < pos" | "i = pos" | "pos < i" by linarith
  then show ?thesis
  proof cases
    case 3
    then have "pos + (i - pos - 1) = i - 1" by arith
    then show ?thesis using 3 p i by (simp add: nth_append nth_Cons' min_def)
  qed (use p i in \<open>simp_all add: nth_append min_def\<close>)
qed

lemma nth_erased:
  "pos < length es \<Longrightarrow> Suc i < length es \<Longrightarrow>
   (take pos es @ drop (Suc pos) es) ! i = (if i < pos then es ! i else es ! Suc i)"
  by (auto simp: nth_append min_def)

lemma nth_resized:
  "i < n \<Longrightarrow> (take n es @ replicate (n - length es) d) ! i = (if i < length es then es ! i else d)"
  by (auto simp: nth_append min_def)


lemma EmplaceBack_holds:
  assumes h: "holds w v es" and nt: "\<And>k. \<not> copy_throws E k" and na: "\<And>n. \<not> new_throws E n"
    and ft: "length es = m_capacity (m_data v) \<Longrightarrow> fits E (max 1 (length es * 2))"
  shows "\<exists>v' w'. EmplaceBack E args v w = (Inr (length es), v', w') \<and>
           holds w' v' (es @ [value_of args]) \<and>
           m_capacity (m_data v') =
             (if length es = m_capacity (m_data v) then (if length es = 0 then 1 else length es * 2)
              else m_capacity (m_data v))"
proof -
  from h have ow: "owns w (m_data v)" and sz: "m_size v = length es" "length es \<le> m_capacity (m_data v)"
    and sl: "\<And>i. i < length es \<Longrightarrow> slots w (m_data v) ! i = Live (es ! i)"
      "\<And>i. length es \<le> i \<Longrightarrow> i < m_capacity (m_data v) \<Longrightarrow> is_Raw (slots w (m_data v) ! i)"
    by (simp_all add: holds_def)
  obtain c0 where ctor: "run_ctor E args (copies w) = (Inr (value_of args), c0)"
    using run_ctor_ok[OF nt] by blast
  show ?thesis
  proof (cases "length es = m_capacity (m_data v)")
    case True
    define n where "n = (if m_size v = 0 then 1 else size_t_mul E (m_size v) 2)"
    have fm: "fits E (max 1 (length es * 2))" using ft True by simp
    then have "fits E (length es * 2)" by (rule fits_mono) simp
    then have n2: "n = (if length es = 0 then 1 else length es * 2)"
      using sz by (simp add: n_def size_t_mul_double)
    have n: "length es < n" "n \<noteq> 0" by (simp_all add: n2)
    have fn: "fits E n" using fm by (rule fits_mono) (simp add: n2)
    from RawMemory_new_fresh[OF n(2) fn na ow] obtain nd w1 where
      new: "RawMemory_new E n w = (Inr nd, w1)" and nd: "m_capacity nd = n" "owns w1 nd"
      "slots w1 nd = tabulate n (\<lambda>i. Raw (fresh_bytes E (brk w) i))" and ne: "m_buffer (m_data v) \<noteq> m_buffer nd"
      and w1: "owns w1 (m_data v)" "slots w1 (m_data v) = slots w (m_data v)" "copies w1 = copies w"
      by blast
    have "\<exists>w2. construct E args nd (length es) w1 = (None, w2) \<and> owns w2 nd \<and>
           slots w2 nd = (slots w1 nd)[length es := Live (value_of args)] \<and> copies w2 = c0 \<and> brk w2 = brk w1 \<and>
           (\<forall>m'. m_buffer m' \<noteq> m_buffer nd \<longrightarrow> owns w2 m' = owns w1 m' \<and> slots w2 m' = slots w1 m')"
      using n nd ctor w1 by (intro construct_step) simp_all
    then obtain w2 where con: "construct E args nd (length es) w1 = (None, w2)"
      and w2: "owns w2 nd" "slots w2 nd = (tabulate n (\<lambda>i. Raw (fresh_bytes E (brk w) i)))[length es := Live (value_of args)]"
        "owns w2 (m_data v)" "slots w2 (m_data v) = slots w (m_data v)"
      using ne nd w1 by auto
    have h2: "holds w2 v es" using h w2(3,4) by (rule holds_transfer)
    have "\<exists>w'. CopyOrMoveAndSwap E nd v w2 = (None, m_data v, v\<lparr>m_data := nd\<rparr>, w') \<and>
           owns w' nd \<and> owns w' (m_data v) \<and>
           (\<forall>i<m_capacity nd. slots w' nd ! i = (if i < length es then Live (es ! i) else slots w2 nd ! i))"
      using h2 w2 nd ne n nt by (intro CopyOrMoveAndSwap_ok) simp_all
    then obtain w3 where cs: "CopyOrMoveAndSwap E nd v w2 = (None, m_data v, v\<lparr>m_data := nd\<rparr>, w3)"
      and o3: "owns w3 nd"
      and s3: "\<And>i. i < n \<Longrightarrow> slots w3 nd ! i =
          (if i < length es then Live (es ! i) else if i = length es then Live (value_of args) else Raw (fresh_bytes E (brk w) i))"
      using nd w2 by (auto simp: nth_list_update)
    define w' where "w' = RawMemory_dtor (m_data v) w3"
    define v' where "v' = v\<lparr>m_data := nd, m_size := length es + 1\<rparr>"
    have res: "EmplaceBack E args v w = (Inr (length es), v', w')"
      using True new con cs sz unfolding EmplaceBack_def Capacity_def RawMemory_Capacity_def n_def[symmetric] w'_def v'_def
      by simp
    have "owns w' nd \<and> slots w' nd = slots w3 nd"
      unfolding w'_def using ne o3 by (intro dtor_other) simp_all
    then have "holds w' v' (es @ [value_of args])"
      unfolding v'_def using s3 n nd by (intro holdsI) (auto simp: nth_append)
    then show ?thesis using res True nd sz by (auto simp: v'_def n2)
  next
    case False
    then have lt: "length es < m_capacity (m_data v)" using sz by simp
    have "\<exists>w1. construct E args (m_data v) (length es) w = (None, w1) \<and> owns w1 (m_data v) \<and>
           slots w1 (m_data v) = (slots w (m_data v))[length es := Live (value_of args)] \<and> copies w1 = c0 \<and> brk w1 = brk w \<and>
           (\<forall>m'. m_buffer m' \<noteq> m_buffer (m_data v) \<longrightarrow> owns w1 m' = owns w m' \<and> slots w1 m' = slots w m')"
      using ow lt sl ctor by (intro construct_step) simp_all
    then obtain w1 where con: "construct E args (m_data v) (length es) w = (None, w1)"
      and w1: "owns w1 (m_data v)" "slots w1 (m_data v) = (slots w (m_data v))[length es := Live (value_of args)]"
      by auto
    define v' where "v' = v\<lparr>m_size := length es + 1\<rparr>"
    have res: "EmplaceBack E args v w = (Inr (length es), v', w1)"
      using False con sz unfolding EmplaceBack_def Capacity_def RawMemory_Capacity_def v'_def
      by simp
    have "holds w1 v' (es @ [value_of args])"
      unfolding v'_def using w1 lt sl ow by (intro holdsI2) (auto simp: nth_append nth_list_update length_slots)
    then show ?thesis using res False by (auto simp: v'_def)
  qed
qed

lemma Emplace_prefix_ok:
  "(if relocates_by_move E then uninitialized_move_n E (m_data v) 0 p nd 0 w
    else uninitialized_copy_n E (m_data v) 0 p nd 0 w) = (None, w') \<Longrightarrow>
   Emplace_prefix E v nd p w = (None, w')"
  by (auto simp: Emplace_prefix_def split: if_splits)

lemma Emplace_suffix_ok:
  "(if relocates_by_move E then uninitialized_move_n E (m_data v) p (m_size v - p) nd (p + 1) w
    else uninitialized_copy_n E (m_data v) p (m_size v - p) nd (p + 1) w) = (None, w') \<Longrightarrow>
   Emplace_suffix E v nd p w = (None, w')"
  by (auto simp: Emplace_suffix_def split: if_splits)

lemma Emplace_grow_holds:
  assumes h: "holds w v es" and pos: "pos < length es" and full: "m_size v = m_capacity (m_data v)"
    and nt: "\<And>k. \<not> copy_throws E k" and na: "\<And>n. \<not> new_throws E n"
    and ft: "fits E (length es * 2)"
  shows "\<exists>v' w'. Emplace_grow E pos args v w = (Inr pos, v', w') \<and>
           holds w' v' (take pos es @ value_of args # drop pos es) \<and>
           m_capacity (m_data v') = length es * 2"
proof -
  let ?src = "m_data v" and ?x = "value_of args"
  from h have ow: "owns w ?src" and sz: "m_size v = length es" "length es \<le> m_capacity ?src"
    and sl: "\<And>i. i < length es \<Longrightarrow> slots w ?src ! i = Live (es ! i)"
      "\<And>i. length es \<le> i \<Longrightarrow> i < m_capacity ?src \<Longrightarrow> is_Raw (slots w ?src ! i)"
    by (simp_all add: holds_def)
  have cap: "m_capacity ?src = length es" using full sz by simp
  obtain c0 where ctor: "run_ctor E args (copies w) = (Inr ?x, c0)"
    using run_ctor_ok[OF nt] by blast
  define n where "n = (if m_size v = 0 then 1 else size_t_mul E (m_size v) 2)"
  have n: "n = length es * 2" "n \<noteq> 0" "length es < n" using sz pos ft by (auto simp: n_def size_t_mul_double)
  have fn: "fits E n" using ft by (simp add: n(1))
  from RawMemory_new_fresh[OF n(2) fn na ow] obtain nd w1 where
    new: "RawMemory_new E n w = (Inr nd, w1)" and nd: "m_capacity nd = n" "owns w1 nd"
    "slots w1 nd = tabulate n (\<lambda>i. Raw (fresh_bytes E (brk w) i))" and ne: "m_buffer ?src \<noteq> m_buffer nd"
    and w1: "owns w1 ?src" "slots w1 ?src = slots w ?src" "copies w1 = copies w"
    by blast
  have "\<exists>w2. construct E args nd pos w1 = (None, w2) \<and> owns w2 nd \<and>
           slots w2 nd = (slots w1 nd)[pos := Live ?x] \<and> copies w2 = c0 \<and> brk w2 = brk w1 \<and>
           (\<forall>m'. m_buffer m' \<noteq> m_buffer nd \<longrightarrow> owns w2 m' = owns w1 m' \<and> slots w2 m' = slots w1 m')"
    using n nd ctor w1 pos by (intro construct_step) simp_all
  then obtain w2 where con: "construct E args nd pos w1 = (None, w2)"
    and o2: "owns w2 nd" "owns w2 ?src"
    and d2: "\<And>i. i < n \<Longrightarrow> slots w2 nd ! i = (if i = pos then Live ?x else Raw (fresh_bytes E (brk w) i))"
    and s2: "\<And>i. i < length es \<Longrightarrow> slots w2 ?src ! i = Live (es ! i)"
    using ne nd w1 sl cap by (auto simp: nth_list_update)
  have "\<exists>w'. (if relocates_by_move E then uninitialized_move_n E ?src 0 pos nd 0 w2
               else uninitialized_copy_n E ?src 0 pos nd 0 w2) = (None, w') \<and>
           slots w' nd = tabulate (m_capacity nd)
              (\<lambda>i. if 0 \<le> i \<and> i < 0 + pos then slots w2 ?src ! (0 + (i - 0)) else slots w2 nd ! i) \<and>
           (\<forall>i<m_capacity ?src. is_Live (slots w' ?src ! i) = is_Live (slots w2 ?src ! i)) \<and>
           (\<forall>i<m_capacity ?src. i < 0 \<or> 0 + pos \<le> i \<longrightarrow> slots w' ?src ! i = slots w2 ?src ! i) \<and>
           owns w' ?src \<and> owns w' nd \<and> brk w' = brk w2 \<and>
           copies w' = copies w2 + (if relocates_by_move E then 0 else pos)"
    using o2 ne nd cap pos n s2 d2 nt by (intro relocate_ok) simp_all
  then obtain w3 where r3: "(if relocates_by_move E then uninitialized_move_n E ?src 0 pos nd 0 w2
               else uninitialized_copy_n E ?src 0 pos nd 0 w2) = (None, w3)"
    and o3: "owns w3 nd" "owns w3 ?src"
    and d3: "\<And>i. i < n \<Longrightarrow> slots w3 nd ! i = (if i < pos then Live (es ! i) else if i = pos then Live ?x else Raw (fresh_bytes E (brk w) i))"
    and l3: "\<And>i. i < length es \<Longrightarrow> is_Live (slots w3 ?src ! i)"
    and s3: "\<And>i. pos \<le> i \<Longrightarrow> i < length es \<Longrightarrow> slots w3 ?src ! i = Live (es ! i)"
    using nd cap d2 s2 pos by auto
  have p3: "Emplace_prefix E v nd pos w2 = (None, w3)" using r3 by (rule Emplace_prefix_ok)
  have "\<exists>w'. (if relocates_by_move E then uninitialized_move_n E ?src pos (m_size v - pos) nd (pos + 1) w3
               else uninitialized_copy_n E ?src pos (m_size v - pos) nd (pos + 1) w3) = (None, w') \<and>
           slots w' nd = tabulate (m_capacity nd)
              (\<lambda>i. if pos + 1 \<le> i \<and> i < pos + 1 + (m_size v - pos) then slots w3 ?src ! (pos + (i - (pos + 1))) else slots w3 nd ! i) \<and>
           (\<forall>i<m_capacity ?src. is_Live (slots w' ?src ! i) = is_Live (slots w3 ?src ! i)) \<and>
           (\<forall>i<m_capacity ?src. i < pos \<or> pos + (m_size v - pos) \<le> i \<longrightarrow> slots w' ?src ! i = slots w3 ?src ! i) \<and>
           owns w' ?src \<and> owns w' nd \<and> brk w' = brk w3 \<and>
           copies w' = copies w3 + (if relocates_by_move E then 0 else m_size v - pos)"
    using o3 ne nd cap pos n sz s3 d3 nt by (intro relocate_ok) simp_all
  then obtain w4 where r4: "(if relocates_by_move E then uninitialized_move_n E ?src pos (m_size v - pos) nd (pos + 1) w3
               else uninitialized_copy_n E ?src pos (m_size v - pos) nd (pos + 1) w3) = (None, w4)"
    and o4: "owns w4 nd" "owns w4 ?src"
    and d4: "\<And>i. i < n \<Longrightarrow> slots w4 nd ! i =
        (if pos + 1 \<le> i \<and> i < length es + 1 then slots w3 ?src ! (pos + (i - (pos + 1))) else slots w3 nd ! i)"
    and l4: "\<And>i. i < length es \<Longrightarrow> is_Live (slots w4 ?src ! i)"
    using nd cap sz l3 pos by auto
  have p4: "Emplace_suffix E v nd pos w3 = (None, w4)" using r4 by (rule Emplace_suffix_ok)
  define w5 where "w5 = put_slots ?src (tabulate (m_capacity ?src)
       (\<lambda>i. if 0 \<le> i \<and> i < 0 + m_size v then destroyed_slot E (slots w4 ?src ! i) else slots w4 ?src ! i)) w4"
  have d5: "destroy_n E ?src 0 (m_size v) w4 = (None, w5)"
    unfolding w5_def using o4 sz l4 by (intro destroy_n_ok) simp_all
  have o5: "owns w5 nd" and s5: "slots w5 nd = slots w4 nd"
    unfolding w5_def using o4 ne by (simp_all add: owns_put_slots_other slots_put_slots_other)
  define w' where "w' = RawMemory_dtor ?src w5"
  define v' where "v' = v\<lparr>m_data := nd, m_size := m_size v + 1\<rparr>"
  have res: "Emplace_grow E pos args v w = (Inr pos, v', w')"
    unfolding Emplace_grow_def n_def[symmetric] w'_def v'_def
    by (simp add: new con p3 p4 d5 RawMemory_Swap_eq)
  have "owns w' nd \<and> slots w' nd = slots w5 nd"
    unfolding w'_def using ne o5 by (intro dtor_other) simp_all
  then have o': "owns w' nd" and s': "slots w' nd = slots w4 nd" using s5 by simp_all
  have fin: "slots w4 nd ! i = (if i < length es + 1 then Live ((take pos es @ ?x # drop pos es) ! i) else Raw (fresh_bytes E (brk w) i))"
    if i: "i < n" for i
  proof -
    consider "i < pos" | "i = pos" | "pos < i" "i \<le> length es" | "length es < i" by linarith
    then show ?thesis
    proof cases
      case 1 then show ?thesis using i pos d4 d3 by (simp add: nth_inserted)
    next
      case 2 then show ?thesis using i pos d4 d3 by (simp add: nth_inserted)
    next
      case 3
      then have e: "pos + (i - (pos + 1)) = i - 1" "pos \<le> i - 1" "i - 1 < length es" by arith+
      show ?thesis using 3 i pos d4[OF i] s3[OF e(2,3)] e(1) by (simp add: nth_inserted)
    next
      case 4 then show ?thesis using i pos d4 d3 by simp
    qed
  qed
  have "holds w' v' (take pos es @ ?x # drop pos es)"
    unfolding v'_def using o' s' fin n nd sz pos by (intro holdsI) simp_all
  then show ?thesis using res nd n by (auto simp: v'_def)
qed

lemma holdsI3:
  assumes "owns w (m_data v)" "m_size v = length xs" "length xs \<le> m_capacity (m_data v)"
    "\<And>i. i < m_capacity (m_data v) \<Longrightarrow>
       (if i < length xs then slots w (m_data v) ! i = Live (xs ! i) else is_Raw (slots w (m_data v) ! i))"
  shows "holds w v xs"
proof (rule holdsI2)
  fix i assume "i < length xs"
  then show "slots w (m_data v) ! i = Live (xs ! i)" using assms(3) assms(4)[of i] by simp
next
  fix i assume "length xs \<le> i" "i < m_capacity (m_data v)"
  then show "is_Raw (slots w (m_data v) ! i)" using assms(4)[of i] by simp
qed (use assms in simp_all)

lemma on_slots_step:
  assumes "owns w m" "f (slots w m) = Inr b'" "length b' = m_capacity m"
  shows "\<exists>w'. on_slots m f w = (None, w') \<and> owns w' m \<and> slots w' m = b' \<and> copies w' = copies w"
  using assms by (intro exI[of _ "put_slots m b' w"])
    (simp add: on_slots_def owns_put_slots_same slots_put_slots_same)

lemma Emplace_shift_holds:
  assumes h: "holds w v es" and pos: "pos < length es" and room: "m_size v \<noteq> m_capacity (m_data v)"
    and nt: "\<And>k. \<not> copy_throws E k"
  shows "\<exists>v' w'. Emplace_shift E pos args v w = (Inr pos, v', w') \<and>
           holds w' v' (take pos es @ value_of args # drop pos es) \<and> m_data v' = m_data v"
proof -
  let ?src = "m_data v" and ?x = "value_of args" and ?mf = "moved_from E"
  from h have ow: "owns w ?src" and sz: "m_size v = length es" "length es \<le> m_capacity ?src"
    by (simp_all add: holds_def)
  define r where "r = (\<lambda>i. content (slots w ?src ! i))"
  have sl: "\<And>i. i < m_capacity ?src \<Longrightarrow> slots w ?src ! i = (if i < length es then Live (es ! i) else Raw (r i))"
    using h by (simp add: holds_def r_def)
  have lt: "length es < m_capacity ?src" using room sz by simp
  obtain c0 where ctor: "run_ctor E args (copies w) = (Inr ?x, c0)"
    using run_ctor_ok[OF nt] by blast
  define s where "s = length es"
  have s: "0 < s" "pos < s" "s < m_capacity ?src" "m_size v = s" using pos lt sz by (auto simp: s_def)
  define b where "b = slots w ?src"
  have lb: "length b = m_capacity ?src" using ow by (simp add: b_def length_slots)
  have b: "\<And>i. i < m_capacity ?src \<Longrightarrow> b ! i = (if i < s then Live (es ! i) else Raw (r i))"
    using sl by (simp add: b_def s_def)
  define a where "a = es ! (s - 1)"
  define b1 where "b1 = b[s - 1 := Live (?mf a), s := Live a]"
  have mc: "move_construct_slot E b (s - 1) s = Inr b1"
    using s lb b[of "s - 1"] b[of s] by (simp add: move_construct_slot_def read_slot_def construct_slot_def a_def b1_def)
  have lb1: "length b1 = m_capacity ?src" by (simp add: b1_def lb)
  have "\<exists>w1. on_slots ?src (\<lambda>b. move_construct_slot E b (s - 1) s) (w\<lparr>copies := c0\<rparr>) = (None, w1) \<and>
          owns w1 ?src \<and> slots w1 ?src = b1 \<and> copies w1 = copies (w\<lparr>copies := c0\<rparr>)"
    using ow mc lb1 by (intro on_slots_step) (simp_all add: b_def)
  then obtain w1 where st1: "on_slots ?src (\<lambda>b. move_construct_slot E b (s - 1) s) (w\<lparr>copies := c0\<rparr>) = (None, w1)"
    and w1: "owns w1 ?src" "slots w1 ?src = b1" by blast
  define k where "k = s - 1 - pos"
  have pk: "s - 1 - k = pos" using s by (simp add: k_def)
  define b2 where "b2 = tabulate (length b1) (\<lambda>i. if pos < i \<and> i \<le> s - 1 then b1 ! (i - 1)
                                   else if i = pos \<and> 0 < k then moved_slot E (b1 ! i)
                                   else b1 ! i)"
  have b1n: "\<And>i. i < m_capacity ?src \<Longrightarrow> b1 ! i =
      (if i = s then Live a else if i = s - 1 then Live (?mf a) else if i < s then Live (es ! i) else Raw (r i))"
    using lb b s by (simp add: b1_def nth_list_update)
  have "move_back E b1 k (s - 1) (Suc (s - 1)) =
     Inr (tabulate (length b1) (\<lambda>i. if s - 1 - k < i \<and> i \<le> s - 1 then b1 ! (i - 1)
                                   else if i = s - 1 - k \<and> 0 < k then moved_slot E (b1 ! i)
                                   else b1 ! i))"
  proof (rule move_back_ok)
    fix i assume "s - 1 - k \<le> i" "i \<le> s - 1"
    then have "i < s" "i < m_capacity ?src" using s by arith+
    then show "is_Live (b1 ! i)" using b1n[of i] by simp
  qed (use s lb1 in \<open>simp_all add: k_def\<close>)
  then have "move_back E b1 k (s - 1) (Suc (s - 1)) = Inr b2"
    unfolding pk b2_def .
  then have mb: "std_move_backward_slots E b1 pos (s - 1) s = Inr b2"
    using s by (simp add: std_move_backward_slots_def k_def)
  have lb2: "length b2 = m_capacity ?src" by (simp add: b2_def lb1)
  have "\<exists>w2. on_slots ?src (\<lambda>b. std_move_backward_slots E b pos (s - 1) s) w1 = (None, w2) \<and>
          owns w2 ?src \<and> slots w2 ?src = b2 \<and> copies w2 = copies w1"
    using w1 mb lb2 by (intro on_slots_step) simp_all
  then obtain w2 where st2: "std_move_backward E ?src pos (s - 1) s w1 = (None, w2)"
    and w2: "owns w2 ?src" "slots w2 ?src = b2" by (auto simp: std_move_backward_def)
  have b2n: "\<And>i. i < m_capacity ?src \<Longrightarrow> b2 ! i =
      (if pos < i \<and> i \<le> s - 1 then b1 ! (i - 1)
       else if i = pos \<and> 0 < k then moved_slot E (b1 ! i) else b1 ! i)"
    by (simp add: b2_def lb1)
  have live: "is_Live (b2 ! pos)" using b2n[of pos] b1n[of pos] s by simp
  define b3 where "b3 = b2[pos := Live ?x]"
  have as: "assign_slot b2 pos ?x = Inr b3"
    using live s lb2 by (simp add: assign_slot_def b3_def)
  have lb3: "length b3 = m_capacity ?src" by (simp add: b3_def lb2)
  have "\<exists>w3. on_slots ?src (\<lambda>b. assign_slot b pos ?x) w2 = (None, w3) \<and>
          owns w3 ?src \<and> slots w3 ?src = b3 \<and> copies w3 = copies w2"
    using w2 as lb3 by (intro on_slots_step) simp_all
  then obtain w3 where st3: "on_slots ?src (\<lambda>b. assign_slot b pos ?x) w2 = (None, w3)"
    and w3: "owns w3 ?src" "slots w3 ?src = b3" by blast
  define v' where "v' = v\<lparr>m_size := m_size v + 1\<rparr>"
  have res: "Emplace_shift E pos args v w = (Inr pos, v', w3)"
    unfolding Emplace_shift_def v'_def s(4) using ctor st1 st2 st3 by simp
  have ni: "\<And>i. i \<le> s \<Longrightarrow> (take pos es @ ?x # drop pos es) ! i =
      (if i < pos then es ! i else if i = pos then ?x else es ! (i - 1))"
    using s by (simp add: nth_inserted s_def)
  have fin: "b3 ! i = (if i < s + 1 then Live ((take pos es @ ?x # drop pos es) ! i) else Raw (r i))"
    if i: "i < m_capacity ?src" for i
  proof -
    consider "i < pos" | "i = pos" | "pos < i" "i \<le> s - 1" | "i = s" | "s < i" by linarith
    then show ?thesis
    proof cases
      case 1
      then have "i \<noteq> s" "i \<noteq> s - 1" "i < s" "i \<le> s" using s by arith+
      then show ?thesis using 1 i lb2 b2n[of i] b1n[of i] ni[of i] by (simp add: b3_def)
    next
      case 2 then show ?thesis using i s lb2 ni[of i] by (simp add: b3_def)
    next
      case 3
      then have "i - 1 < m_capacity ?src" "i - 1 \<noteq> s" "i - 1 \<noteq> s - 1" "i - 1 < s" "i \<le> s" using i by arith+
      then show ?thesis using 3 i lb2 b2n[of i] b1n[of "i - 1"] ni[of i] by (simp add: b3_def)
    next
      case 4
      then have "\<not> i \<le> s - 1" "pos < i" "i \<le> s" using s by arith+
      then show ?thesis using 4 i lb2 b2n[of i] b1n[of i] ni[of i] by (simp add: b3_def a_def)
    next
      case 5
      then have "\<not> i \<le> s - 1" "pos < i" "i \<noteq> s - 1" "\<not> i < s" using s by arith+
      then show ?thesis using 5 i lb2 b2n[of i] b1n[of i] by (simp add: b3_def)
    qed
  qed
  have "holds w3 v' (take pos es @ ?x # drop pos es)"
    unfolding v'_def using w3 fin lt sz pos by (intro holdsI[where r = r]) (simp_all add: s_def)
  then show ?thesis using res by (auto simp: v'_def)
qed

lemma Emplace_holds:
  assumes h: "holds w v es" and pos: "pos \<le> length es"
    and nt: "\<And>k. \<not> copy_throws E k" and na: "\<And>n. \<not> new_throws E n"
    and ft: "length es = m_capacity (m_data v) \<Longrightarrow> fits E (max 1 (length es * 2))"
  shows "\<exists>v' w'. Emplace E pos args v w = (Inr pos, v', w') \<and>
           holds w' v' (take pos es @ value_of args # drop pos es) \<and>
           m_capacity (m_data v') =
             (if length es = m_capacity (m_data v) then (if length es = 0 then 1 else length es * 2)
              else m_capacity (m_data v))"
proof -
  from h have sz: "m_size v = length es" by (simp add: holds_def)
  consider "pos = length es" | "pos < length es" "m_size v = m_capacity (m_data v)"
    | "pos < length es" "m_size v \<noteq> m_capacity (m_data v)" using pos by linarith
  then show ?thesis
  proof cases
    case 1
    from EmplaceBack_holds[OF h nt na ft, of args] obtain v' w' where
      "EmplaceBack E args v w = (Inr (length es), v', w')" "holds w' v' (es @ [value_of args])"
      "m_capacity (m_data v') =
             (if length es = m_capacity (m_data v) then (if length es = 0 then 1 else length es * 2)
              else m_capacity (m_data v))" by blast
    then show ?thesis using 1 sz by (auto simp: Emplace_def)
  next
    case 2
    have "fits E (max 1 (length es * 2))" using ft 2 sz by simp
    then have "fits E (length es * 2)" by (rule fits_mono) simp
    from Emplace_grow_holds[OF h 2 nt na this, of args] obtain v' w' where
      "Emplace_grow E pos args v w = (Inr pos, v', w')" "holds w' v' (take pos es @ value_of args # drop pos es)"
      "m_capacity (m_data v') = length es * 2"
      by blast
    then show ?thesis using 2 sz by (auto simp: Emplace_def Capacity_def RawMemory_Capacity_def)
  next
    case 3
    from Emplace_shift_holds[OF h 3 nt, of args] obtain v' w' where
      "Emplace_shift E pos args v w = (Inr pos, v', w')" "holds w' v' (take pos es @ value_of args # drop pos es)"
      "m_data v' = m_data v"
      by blast
    then show ?thesis using 3 sz by (auto simp: Emplace_def Capacity_def RawMemory_Capacity_def)
  qed
qed

lemma Erase_holds:
  assumes h: "holds w v es" and pos: "pos < length es"
  shows "\<exists>v' w'. Erase E pos v w = (Inr pos, v', w') \<and>
           holds w' v' (take pos es @ drop (Suc pos) es) \<and> m_data v' = m_data v"
proof -
  let ?src = "m_data v" and ?mf = "moved_from E"
  from h have ow: "owns w ?src" and sz: "m_size v = length es" "length es \<le> m_capacity ?src"
    by (simp_all add: holds_def)
  define r where "r = (\<lambda>i. content (slots w ?src ! i))"
  have sl: "\<And>i. i < m_capacity ?src \<Longrightarrow> slots w ?src ! i = (if i < length es then Live (es ! i) else Raw (r i))"
    using h by (simp add: holds_def r_def)
  define s where "s = length es"
  have s: "0 < s" "pos < s" "s \<le> m_capacity ?src" "m_size v = s" using pos sz by (auto simp: s_def)
  define b where "b = slots w ?src"
  have lb: "length b = m_capacity ?src" using ow by (simp add: b_def length_slots)
  have b: "\<And>i. i < m_capacity ?src \<Longrightarrow> b ! i = (if i < s then Live (es ! i) else Raw (r i))"
    using sl by (simp add: b_def s_def)
  define k where "k = s - Suc pos"
  have pk: "pos + k = s - 1" using s by (simp add: k_def)
  define b1 where "b1 = tabulate (length b) (\<lambda>i. if pos \<le> i \<and> i < s - 1 then b ! Suc i
                                   else if i = s - 1 \<and> 0 < k then moved_slot E (b ! i)
                                   else b ! i)"
  have "move_forward E b (Suc pos) k pos =
     Inr (tabulate (length b) (\<lambda>i. if pos \<le> i \<and> i < pos + k then b ! Suc i
                                   else if i = pos + k \<and> 0 < k then moved_slot E (b ! i)
                                   else b ! i))"
  proof (rule move_forward_ok)
    fix i assume "pos \<le> i" "i \<le> pos + k"
    then have "i < s" "i < m_capacity ?src" using s pk by arith+
    then show "is_Live (b ! i)" using b[of i] by simp
  qed (use s lb in \<open>simp_all add: k_def\<close>)
  then have "move_forward E b (Suc pos) k pos = Inr b1"
    unfolding pk b1_def .
  then have mv: "std_move_slots E b (pos + 1) s pos = Inr b1"
    using s by (simp add: std_move_slots_def k_def)
  have lb1: "length b1 = m_capacity ?src" by (simp add: b1_def lb)
  have "\<exists>w1. on_slots ?src (\<lambda>b. std_move_slots E b (pos + 1) s pos) w = (None, w1) \<and>
          owns w1 ?src \<and> slots w1 ?src = b1 \<and> copies w1 = copies w"
    using ow mv lb1 by (intro on_slots_step) (simp_all add: b_def)
  then obtain w1 where st1: "std_move E ?src (pos + 1) s pos w = (None, w1)"
    and w1: "owns w1 ?src" "slots w1 ?src = b1" by (auto simp: std_move_def)
  have b1n: "\<And>i. i < m_capacity ?src \<Longrightarrow> b1 ! i =
      (if pos \<le> i \<and> i < s - 1 then b ! Suc i
       else if i = s - 1 \<and> 0 < k then moved_slot E (b ! i) else b ! i)"
    by (simp add: b1_def lb)
  have "s - 1 < m_capacity ?src" using s by arith
  then have live: "is_Live (b1 ! (s - 1))" using b1n[of "s - 1"] b[of "s - 1"] s by simp
  define b2 where "b2 = b1[s - 1 := destroyed_slot E (b1 ! (s - 1))]"
  have ds: "destroy_slot E b1 (s - 1) = Inr b2"
    using live s lb1 by (simp add: destroy_slot_def b2_def destroyed_slot_def)
  have lb2: "length b2 = m_capacity ?src" by (simp add: b2_def lb1)
  have "\<exists>w2. on_slots ?src (\<lambda>b. destroy_slot E b (s - 1)) w1 = (None, w2) \<and>
          owns w2 ?src \<and> slots w2 ?src = b2 \<and> copies w2 = copies w1"
    using w1 ds lb2 by (intro on_slots_step) simp_all
  then obtain w2 where st2: "destroy_at E ?src (s - 1) w1 = (None, w2)"
    and w2: "owns w2 ?src" "slots w2 ?src = b2" by (auto simp: destroy_at_def)
  define v' where "v' = v\<lparr>m_size := m_size v - 1\<rparr>"
  have pb: "PopBack E v w1 = (None, v', w2)"
    unfolding PopBack_def v'_def s(4) using s(1) st2 by simp
  have res: "Erase E pos v w = (Inr pos, v', w2)"
    unfolding Erase_def s(4) using st1 pb by simp
  have ne: "\<And>i. Suc i < s \<Longrightarrow> (take pos es @ drop (Suc pos) es) ! i = (if i < pos then es ! i else es ! Suc i)"
    using s by (simp add: nth_erased s_def)
  have fin: "if i < s - 1 then b2 ! i = Live ((take pos es @ drop (Suc pos) es) ! i) else is_Raw (b2 ! i)"
    if i: "i < m_capacity ?src" for i
  proof -
    consider "i < pos" | "pos \<le> i" "i < s - 1" | "i = s - 1" | "s \<le> i" by linarith
    then show ?thesis
    proof cases
      case 1
      then have "i < s - 1" "i < s" "Suc i < s" using s by arith+
      then show ?thesis using 1 i lb1 b1n[of i] b[of i] ne[of i] by (simp add: b2_def)
    next
      case 2
      then have "Suc i < s" "Suc i < m_capacity ?src" "i \<noteq> s - 1" using s by arith+
      then show ?thesis using 2 i lb1 b1n[of i] b[of "Suc i"] ne[of i] by (simp add: b2_def)
    next
      case 3 then show ?thesis using i lb1 by (simp add: b2_def)
    next
      case 4
      then have "\<not> i < s - 1" "i \<noteq> s - 1" "\<not> i < s" using s by arith+
      then show ?thesis using 4 i lb1 b1n[of i] b[of i] by (simp add: b2_def)
    qed
  qed
  have "holds w2 v' (take pos es @ drop (Suc pos) es)"
    unfolding v'_def using w2 fin s by (intro holdsI3) (auto simp: s_def)
  then show ?thesis using res by (auto simp: v'_def)
qed



lemma append_all_append:
  "append_all E as v w = (None, v1, w1) \<Longrightarrow> append_all E (as @ bs) v w = append_all E bs v1 w1"
  by (induction as arbitrary: v w) (auto split: prod.splits sum.splits)

lemma append_call_holds:
  assumes h: "holds w v es" and nt: "\<And>k. \<not> copy_throws E k" and na: "\<And>n. \<not> new_throws E n"
    and ft: "length es = m_capacity (m_data v) \<Longrightarrow> fits E (max 1 (length es * 2))"
  shows "\<exists>v' w'. append_call E a v w = (Inr (length es), v', w') \<and>
           holds w' v' (es @ [appended a]) \<and>
           m_capacity (m_data v') =
             (if length es = m_capacity (m_data v) then (if length es = 0 then 1 else length es * 2)
              else m_capacity (m_data v))"
proof (cases a)
  case (PushBack_lvalue x)
  then show ?thesis using EmplaceBack_holds[OF h nt na ft, of "ByCopy x"] by (simp add: PushBack_copy_def)
next
  case (PushBack_rvalue x)
  then show ?thesis using EmplaceBack_holds[OF h nt na ft, of "ByMove x"] by (simp add: PushBack_move_def)
next
  case (EmplaceBack_args args)
  then show ?thesis using EmplaceBack_holds[OF h nt na ft, of args] by simp
qed

lemma append_all_holds:
  assumes nt: "\<And>k. \<not> copy_throws E k" and na: "\<And>n. \<not> new_throws E n"
  shows "fits E (max 1 (2 * length as)) \<Longrightarrow>
         \<exists>v w1. append_all E as Vector_default w = (None, v, w1) \<and> holds w1 v (map appended as) \<and>
           (m_capacity (m_data v) = 0 \<and> as = [] \<or>
            (\<exists>k. m_capacity (m_data v) = 2 ^ k \<and> length as \<le> 2 ^ k \<and> 2 ^ k < 2 * length as))"
proof (induction as rule: rev_induct)
  case Nil
  have "holds w Vector_default []"
    by (simp add: holds_def Vector_default_def RawMemory_default_def owns_def)
  then show ?case by (simp add: Vector_default_def RawMemory_default_def)
next
  case (snoc a as)
  have f1: "fits E (max 1 (2 * length as))" using snoc.prems by (rule fits_mono) simp
  from snoc.IH[OF f1] obtain v w1 where r: "append_all E as Vector_default w = (None, v, w1)"
    and h: "holds w1 v (map appended as)"
    and c: "m_capacity (m_data v) = 0 \<and> as = [] \<or>
            (\<exists>k. m_capacity (m_data v) = 2 ^ k \<and> length as \<le> 2 ^ k \<and> 2 ^ k < 2 * length as)"
    by blast
  have f2: "fits E (max 1 (length (map appended as) * 2))" using f1 by (simp add: mult.commute)
  from append_call_holds[OF h nt na f2, of a] obtain v' w' where
    e: "append_call E a v w1 = (Inr (length as), v', w')"
    and h': "holds w' v' (map appended as @ [appended a])"
    and c': "m_capacity (m_data v') =
             (if length as = m_capacity (m_data v) then (if length as = 0 then 1 else length as * 2)
              else m_capacity (m_data v))" by auto
  have res: "append_all E (as @ [a]) Vector_default w = (None, v', w')"
    using append_all_append[OF r, of "[a]"] e by simp
  have "\<exists>k. m_capacity (m_data v') = 2 ^ k \<and> length (as @ [a]) \<le> 2 ^ k \<and> 2 ^ k < 2 * length (as @ [a])"
  proof (cases "as = []")
    case True
    then have "m_capacity (m_data v) = 0" using c by auto
    then have "m_capacity (m_data v') = 2 ^ 0" using c' True by simp
    then show ?thesis using True by (intro exI[of _ 0]) simp
  next
    case False
    then obtain k where k: "m_capacity (m_data v) = 2 ^ k" "length as \<le> 2 ^ k" "2 ^ k < 2 * length as"
      using c by auto
    show ?thesis
    proof (cases "length as = m_capacity (m_data v)")
      case True
      then have "m_capacity (m_data v') = 2 ^ Suc k" using c' k False by simp
      then show ?thesis using True k False by (intro exI[of _ "Suc k"]) auto
    next
      case False
      then have "m_capacity (m_data v') = 2 ^ k" using c' k by simp
      then show ?thesis using False k by (intro exI[of _ k]) auto
    qed
  qed
  then show ?case using res h' by auto
qed


lemma full_vector_facts:
  "invariant two_ints full_vector" "elements two_ints full_vector = [1, 2]"
  "Size full_vector = 2" "Capacity full_vector = 2" "copies two_ints = 0"
  "slots two_ints (m_data full_vector) = [Live 1, Live 2]"
  by (simp_all add: invariant_def owns_def slots_def elements_def Size_def Capacity_def
      RawMemory_Capacity_def two_ints_def full_vector_def)


lemma two_vectors_facts:
  "invariant two_vectors full_vector" "elements two_vectors full_vector = [1, 2]"
  "invariant two_vectors single_vector" "elements two_vectors single_vector = [7]"
  "Size single_vector = 1" "Capacity single_vector = 3"
  by (simp_all add: invariant_def owns_def slots_def elements_def Size_def Capacity_def
      RawMemory_Capacity_def two_vectors_def full_vector_def single_vector_def)

lemma example_type_facts:
  "\<not> copy_throws plain_type k" "\<not> new_throws plain_type n" "default_init plain_type r = r"
  "destroyed plain_type r = r" "fresh_bytes plain_type a i = 0"
  "size_of plain_type = 4" "size_t_bits plain_type = 64"
  "is_copy_constructible (throwing_copy_type j)" "\<not> is_nothrow_move_constructible (throwing_copy_type j)"
  "copy_throws (throwing_copy_type j) k = (k = j)" "\<not> new_throws (throwing_copy_type j) n"
  "size_of (throwing_copy_type j) = 4" "size_t_bits (throwing_copy_type j) = 64"
  by (simp_all add: plain_type_def throwing_copy_type_def)

section \<open>Insertion and erasure at a position\<close>

text \<open>
  C4. For every vector that satisfies the invariant and holds \<open>n\<close> elements \<open>es\<close>, every
  position \<open>pos \<le> n\<close> and all constructor arguments, when no copy construction throws,
  no allocation fails and, in case the vector is full, the size in bytes of the doubled
  allocation is representable in \<^verbatim>\<open>size_t\<close>, \<^verbatim>\<open>Emplace\<close> returns the iterator at \<open>pos\<close> and
  leaves a vector that satisfies the invariant, has size \<open>n + 1\<close> and holds the first
  \<open>pos\<close> elements of \<open>es\<close>, then the constructed value, then the remaining elements of
  \<open>es\<close>. This holds whichever branch runs: the capacity afterwards is doubled (or 1) when
  the vector was full and is unchanged when there was room. \<^verbatim>\<open>Insert\<close> is \<^verbatim>\<open>Emplace\<close> with
  the copy or the move constructor.
\<close>

theorem Emplace_inserts_at_position:
  assumes "invariant w v" and "pos \<le> Size v"
    and "\<And>k. \<not> copy_throws E k" and "\<And>n. \<not> new_throws E n"
    and "Size v = Capacity v \<Longrightarrow> fits E (max 1 (Size v * 2))"
  shows "(\<exists>v' w'. Emplace E pos args v w = (Inr pos, v', w') \<and> invariant w' v' \<and>
           elements w' v' = take pos (elements w v) @ [value_of args] @ drop pos (elements w v) \<and>
           Size v' = Size v + 1 \<and>
           Capacity v' = (if Size v = Capacity v then (if Size v = 0 then 1 else Size v * 2)
                          else Capacity v)) \<and>
         Insert_copy E pos x v w = Emplace E pos (ByCopy x) v w \<and>
         Insert_move E pos x v w = Emplace E pos (ByMove x) v w"
proof -
  have h: "holds w v (elements w v)" using assms(1) by (rule invariant_holds)
  then have sz: "m_size v = length (elements w v)" by (simp add: holds_def)
  then have p: "pos \<le> length (elements w v)" using assms(2) by (simp add: Size_def)
  have ft: "length (elements w v) = m_capacity (m_data v) \<Longrightarrow> fits E (max 1 (length (elements w v) * 2))"
    using assms(5) sz by (simp add: Size_def Capacity_def RawMemory_Capacity_def)
  from Emplace_holds[OF h p assms(3,4) ft, of args] obtain v' w' where
    r: "Emplace E pos args v w = (Inr pos, v', w')"
    and h': "holds w' v' (take pos (elements w v) @ value_of args # drop pos (elements w v))"
    and c: "m_capacity (m_data v') =
             (if length (elements w v) = m_capacity (m_data v)
              then (if length (elements w v) = 0 then 1 else length (elements w v) * 2)
              else m_capacity (m_data v))" by blast
  have "m_size v' = length (elements w v) + 1" using h' assms(2) sz by (simp add: holds_def Size_def)
  then show ?thesis
    using r h' c sz
    by (auto simp: holds_iff Size_def Capacity_def RawMemory_Capacity_def Insert_copy_def Insert_move_def)
qed

theorem Emplace_inserts_at_position_witness:
  "invariant two_ints full_vector \<and> 1 \<le> Size full_vector \<and>
   (\<forall>k. \<not> copy_throws plain_type k) \<and> (\<forall>n. \<not> new_throws plain_type n) \<and>
   Size full_vector = Capacity full_vector \<and> fits plain_type (max 1 (Size full_vector * 2)) \<and>
   (\<exists>v' w'. Emplace plain_type 1 (InPlace 99) full_vector two_ints = (Inr 1, v', w') \<and>
      invariant w' v' \<and> elements w' v' = [1, 99, 2] \<and> Size v' = 3 \<and> Capacity v' = 4) \<and>
   Insert_copy plain_type 1 7 full_vector two_ints = Emplace plain_type 1 (ByCopy 7) full_vector two_ints \<and>
   Insert_move plain_type 1 7 full_vector two_ints = Emplace plain_type 1 (ByMove 7) full_vector two_ints"
  using Emplace_inserts_at_position[of two_ints full_vector 1 plain_type "InPlace 99" 7]
  by (simp add: full_vector_facts example_type_facts fits_def)

text \<open>
  C5. For every vector that satisfies the invariant and holds \<open>n\<close> elements \<open>es\<close> and
  every position \<open>pos < n\<close>, \<^verbatim>\<open>Erase\<close> returns the iterator at \<open>pos\<close> and leaves a vector
  that satisfies the invariant, has size \<open>n - 1\<close>, the same capacity, and holds the first
  \<open>pos\<close> elements of \<open>es\<close> followed by those after position \<open>pos\<close>, in their order.
\<close>

theorem Erase_removes_position:
  assumes "invariant w v" and "pos < Size v"
  shows "\<exists>v' w'. Erase E pos v w = (Inr pos, v', w') \<and> invariant w' v' \<and>
           elements w' v' = take pos (elements w v) @ drop (Suc pos) (elements w v) \<and>
           Size v' = Size v - 1 \<and> Capacity v' = Capacity v"
proof -
  have h: "holds w v (elements w v)" using assms(1) by (rule invariant_holds)
  then have sz: "m_size v = length (elements w v)" by (simp add: holds_def)
  then have "pos < length (elements w v)" using assms(2) by (simp add: Size_def)
  from Erase_holds[OF h this, of E] obtain v' w' where
    r: "Erase E pos v w = (Inr pos, v', w')"
    and h': "holds w' v' (take pos (elements w v) @ drop (Suc pos) (elements w v))"
    and d: "m_data v' = m_data v" by blast
  have "m_size v' = length (elements w v) - 1" using h' assms(2) sz by (simp add: holds_def Size_def)
  then show ?thesis
    using r h' d sz by (auto simp: holds_iff Size_def Capacity_def RawMemory_Capacity_def)
qed

theorem Erase_removes_position_witness:
  "invariant two_ints full_vector \<and> 0 < Size full_vector \<and>
   (\<exists>v' w'. Erase plain_type 0 full_vector two_ints = (Inr 0, v', w') \<and>
      invariant w' v' \<and> elements w' v' = [2] \<and> Size v' = 1 \<and> Capacity v' = 2)"
  using Erase_removes_position[of two_ints full_vector 0 plain_type]
  by (simp add: full_vector_facts)


section \<open>Resize\<close>





section \<open>Appending from the empty vector\<close>

text \<open>
  C6. When no copy construction throws, no allocation fails and the size in bytes of
  \<open>max 1 (2 * length as)\<close> elements is representable in \<^verbatim>\<open>size_t\<close>, appending by any
  sequence \<open>as\<close> of calls of \<^verbatim>\<open>PushBack(const T&)\<close>, \<^verbatim>\<open>PushBack(T&&)\<close> and \<^verbatim>\<open>EmplaceBack\<close>
  to a default-constructed vector succeeds and leaves a vector of size \<open>length as\<close>
  holding the appended values in order; its capacity is 0 for the empty sequence and
  otherwise the power of two \<open>c\<close> with \<open>c / 2 < length as \<le> c\<close>. One more append, of
  any of the three kinds, returns the index \<open>length as\<close>, gives size \<open>length as + 1\<close>,
  and changes the capacity to \<open>max 1 (2 * capacity)\<close> exactly when size equalled
  capacity; the capacity never decreases. Both overloads of \<^verbatim>\<open>PushBack\<close> are \<^verbatim>\<open>EmplaceBack\<close>
  with the copy or the move constructor.
\<close>

theorem appends_double_capacity:
  assumes "\<And>k. \<not> copy_throws E k" and "\<And>n. \<not> new_throws E n"
    and "fits E (max 1 (2 * length as))"
  shows "(\<exists>v w1. append_all E as Vector_default w = (None, v, w1) \<and> invariant w1 v \<and>
           Size v = length as \<and> elements w1 v = map appended as \<and>
           (Capacity v = 0 \<and> as = [] \<or>
            (\<exists>k. Capacity v = 2 ^ k \<and> length as \<le> 2 ^ k \<and> 2 ^ k < 2 * length as)) \<and>
           (\<exists>v' w2. append_call E a v w1 = (Inr (length as), v', w2) \<and> invariant w2 v' \<and>
              Size v' = length as + 1 \<and> elements w2 v' = map appended as @ [appended a] \<and>
              Capacity v' = (if Size v = Capacity v then max 1 (2 * Capacity v) else Capacity v) \<and>
              Capacity v \<le> Capacity v')) \<and>
         PushBack_copy E x u wu = EmplaceBack E (ByCopy x) u wu \<and>
         PushBack_move E x u wu = EmplaceBack E (ByMove x) u wu \<and>
         append_call E (PushBack_lvalue x) u wu = PushBack_copy E x u wu \<and>
         append_call E (PushBack_rvalue x) u wu = PushBack_move E x u wu \<and>
         append_call E (EmplaceBack_args args) u wu = EmplaceBack E args u wu"
proof -
  from append_all_holds[OF assms, of w] obtain v w1 where
    r: "append_all E as Vector_default w = (None, v, w1)" and h: "holds w1 v (map appended as)"
    and c: "m_capacity (m_data v) = 0 \<and> as = [] \<or>
            (\<exists>k. m_capacity (m_data v) = 2 ^ k \<and> length as \<le> 2 ^ k \<and> 2 ^ k < 2 * length as)"
    by blast
  from h have sz: "m_size v = length as" "length as \<le> m_capacity (m_data v)" by (simp_all add: holds_def)
  have ft: "fits E (max 1 (length (map appended as) * 2))" using assms(3) by (simp add: mult.commute)
  from append_call_holds[OF h assms(1,2) ft, of a] obtain v' w' where
    e: "append_call E a v w1 = (Inr (length as), v', w')"
    and h': "holds w' v' (map appended as @ [appended a])"
    and c': "m_capacity (m_data v') =
             (if length as = m_capacity (m_data v) then (if length as = 0 then 1 else length as * 2)
              else m_capacity (m_data v))" by auto
  have s': "m_size v' = length as + 1" using h' by (simp add: holds_def)
  have c'': "m_capacity (m_data v') =
     (if m_size v = m_capacity (m_data v) then max 1 (2 * m_capacity (m_data v)) else m_capacity (m_data v))"
    using c' sz by (auto simp: max_def)
  then have "m_capacity (m_data v) \<le> m_capacity (m_data v')" by (auto simp: max_def)
  then have "\<exists>v w1. append_all E as Vector_default w = (None, v, w1) \<and> invariant w1 v \<and>
           Size v = length as \<and> elements w1 v = map appended as \<and>
           (Capacity v = 0 \<and> as = [] \<or>
            (\<exists>k. Capacity v = 2 ^ k \<and> length as \<le> 2 ^ k \<and> 2 ^ k < 2 * length as)) \<and>
           (\<exists>v' w2. append_call E a v w1 = (Inr (length as), v', w2) \<and> invariant w2 v' \<and>
              Size v' = length as + 1 \<and> elements w2 v' = map appended as @ [appended a] \<and>
              Capacity v' = (if Size v = Capacity v then max 1 (2 * Capacity v) else Capacity v) \<and>
              Capacity v \<le> Capacity v')"
    using r h c e h' s' c'' sz
    by (auto simp: holds_iff Size_def Capacity_def RawMemory_Capacity_def)
  then show ?thesis by (simp add: PushBack_copy_def PushBack_move_def)
qed

theorem appends_double_capacity_witness:
  "(\<forall>k. \<not> copy_throws plain_type k) \<and> (\<forall>n. \<not> new_throws plain_type n) \<and>
   fits plain_type (max 1 (2 * length [PushBack_lvalue 1, PushBack_rvalue 2, EmplaceBack_args (InPlace (3::int))])) \<and>
   (\<exists>v w1. append_all plain_type [PushBack_lvalue 1, PushBack_rvalue 2, EmplaceBack_args (InPlace 3)]
               Vector_default no_allocations = (None, v, w1) \<and>
      invariant w1 v \<and> Size v = 3 \<and> elements w1 v = [1, 2, 3] \<and>
      (\<exists>k. Capacity v = 2 ^ k \<and> 3 \<le> (2::nat) ^ k \<and> (2::nat) ^ k < 6) \<and>
      (\<exists>v' w2. append_call plain_type (PushBack_lvalue 4) v w1 = (Inr 3, v', w2) \<and> invariant w2 v' \<and>
         Size v' = 4 \<and> elements w2 v' = [1, 2, 3, 4] \<and>
         Capacity v' = (if Size v = Capacity v then max 1 (2 * Capacity v) else Capacity v) \<and>
         Capacity v \<le> Capacity v'))"
proof -
  have ft: "fits plain_type (max 1 (2 * length [PushBack_lvalue 1, PushBack_rvalue 2, EmplaceBack_args (InPlace (3::int))]))"
    by (simp add: fits_def example_type_facts)
  show ?thesis
    using appends_double_capacity[where E = plain_type
      and as = "[PushBack_lvalue 1, PushBack_rvalue 2, EmplaceBack_args (InPlace 3)]"
      and a = "PushBack_lvalue 4" and w = no_allocations and x = 0 and u = Vector_default
      and wu = no_allocations and args = "InPlace 0"] ft
    by (simp del: append_all.simps append_call.simps add: example_type_facts eval_nat_numeral)
qed

section \<open>A copy that throws during growth\<close>

text \<open>
  C2. For an element type that is copy constructible and whose move constructor is not
  \<^verbatim>\<open>noexcept\<close>, and a vector that satisfies the invariant: when \<^verbatim>\<open>Reserve\<close>, \<^verbatim>\<open>EmplaceBack\<close>
  or \<^verbatim>\<open>PushBack\<close> has to grow, the size in bytes of the new allocation is representable
  in \<^verbatim>\<open>size_t\<close>, the allocation succeeds, the new element (if any) is constructed, and one
  of the copy constructions that relocate the old elements throws, then the call fails
  with that exception and the vector object, the slots of its allocation and hence its
  size, capacity and elements in order are as before the call.
\<close>

theorem growth_copy_failure_keeps_vector:
  assumes "is_copy_constructible E" and "\<not> is_nothrow_move_constructible E" and "invariant w v"
  shows "(Capacity v < n \<and> fits E n \<and> \<not> new_throws E (n * size_of E) \<and>
          (\<exists>k<Size v. copy_throws E (copies w + k)) \<longrightarrow>
            (\<exists>w'. Reserve E n v w = (Some CopyThrew, v, w') \<and> invariant w' v \<and>
                  slots w' (m_data v) = slots w (m_data v) \<and> elements w' v = elements w v)) \<and>
         (Size v = Capacity v \<and> fits E (Size v * 2) \<and> \<not> new_throws E (Size v * 2 * size_of E) \<and>
          run_ctor E args (copies w) = (Inr x, c0) \<and> (\<exists>k<Size v. copy_throws E (c0 + k)) \<longrightarrow>
            (\<exists>w'. EmplaceBack E args v w = (Inl CopyThrew, v, w') \<and> invariant w' v \<and>
                  slots w' (m_data v) = slots w (m_data v) \<and> elements w' v = elements w v)) \<and>
         (Size v = Capacity v \<and> fits E (Size v * 2) \<and> \<not> new_throws E (Size v * 2 * size_of E) \<and>
          \<not> copy_throws E (copies w) \<and> (\<exists>k<Size v. copy_throws E (Suc (copies w) + k)) \<longrightarrow>
            (\<exists>w'. PushBack_copy E x v w = (Inl CopyThrew, v, w') \<and> invariant w' v \<and>
                  slots w' (m_data v) = slots w (m_data v) \<and> elements w' v = elements w v)) \<and>
         (Size v = Capacity v \<and> fits E (Size v * 2) \<and> \<not> new_throws E (Size v * 2 * size_of E) \<and>
          (\<exists>k<Size v. copy_throws E (copies w + k)) \<longrightarrow>
            (\<exists>w'. PushBack_move E x v w = (Inl CopyThrew, v, w') \<and> invariant w' v \<and>
                  slots w' (m_data v) = slots w (m_data v) \<and> elements w' v = elements w v))"
proof -
  have nm: "\<not> relocates_by_move E" using assms(1,2) by (simp add: relocates_by_move_def)
  have el: "\<And>w'. slots w' (m_data v) = slots w (m_data v) \<Longrightarrow> elements w' v = elements w v"
    by (simp add: elements_def)
  have eb: "\<exists>w'. EmplaceBack E a v w = (Inl CopyThrew, v, w') \<and> invariant w' v \<and>
                  slots w' (m_data v) = slots w (m_data v) \<and> elements w' v = elements w v"
    if "Size v = Capacity v" "fits E (Size v * 2)" "\<not> new_throws E (Size v * 2 * size_of E)"
      "run_ctor E a (copies w) = (Inr y, c)" "\<exists>k<Size v. copy_throws E (c + k)" for a y c
  proof -
    from that(5) obtain k where k: "k < m_size v" "copy_throws E (c + k)" by (auto simp: Size_def)
    have nt: "\<not> new_throws E ((if m_size v = 0 then 1 else m_size v * 2) * size_of E)"
      using that(3) k(1) by (simp add: Size_def)
    from EmplaceBack_copy_fails[OF nm assms(3) that(1,2)[unfolded Size_def] nt that(4) k] obtain w' where
      "EmplaceBack E a v w = (Inl CopyThrew, v, w')" "slots w' (m_data v) = slots w (m_data v)"
      "invariant w' v" by blast
    then show ?thesis using el by blast
  qed
  have rs: "\<exists>w'. Reserve E n v w = (Some CopyThrew, v, w') \<and> invariant w' v \<and>
                  slots w' (m_data v) = slots w (m_data v) \<and> elements w' v = elements w v"
    if "Capacity v < n" "fits E n" "\<not> new_throws E (n * size_of E)" "\<exists>k<Size v. copy_throws E (copies w + k)"
  proof -
    from that(4) obtain k where k: "k < m_size v" "copy_throws E (copies w + k)" by (auto simp: Size_def)
    from Reserve_copy_fails[OF nm assms(3) that(1,2,3) k] obtain w' where
      "Reserve E n v w = (Some CopyThrew, v, w')" "slots w' (m_data v) = slots w (m_data v)"
      "invariant w' v" by blast
    then show ?thesis using el by blast
  qed
  have pc: "\<exists>w'. PushBack_copy E x v w = (Inl CopyThrew, v, w') \<and> invariant w' v \<and>
                  slots w' (m_data v) = slots w (m_data v) \<and> elements w' v = elements w v"
    if "Size v = Capacity v" "fits E (Size v * 2)" "\<not> new_throws E (Size v * 2 * size_of E)"
      "\<not> copy_throws E (copies w)" "\<exists>k<Size v. copy_throws E (Suc (copies w) + k)"
  proof -
    have "run_ctor E (ByCopy x) (copies w) = (Inr x, Suc (copies w))" using that(4) by simp
    from eb[OF that(1,2,3) this that(5)] show ?thesis by (simp add: PushBack_copy_def)
  qed
  have pm: "\<exists>w'. PushBack_move E x v w = (Inl CopyThrew, v, w') \<and> invariant w' v \<and>
                  slots w' (m_data v) = slots w (m_data v) \<and> elements w' v = elements w v"
    if "Size v = Capacity v" "fits E (Size v * 2)" "\<not> new_throws E (Size v * 2 * size_of E)"
      "\<exists>k<Size v. copy_throws E (copies w + k)"
  proof -
    have "run_ctor E (ByMove x) (copies w) = (Inr x, copies w)" by simp
    from eb[OF that(1,2,3) this that(4)] show ?thesis by (simp add: PushBack_move_def)
  qed
  show ?thesis
  proof (intro conjI impI)
    assume "Capacity v < n \<and> fits E n \<and> \<not> new_throws E (n * size_of E) \<and>
          (\<exists>k<Size v. copy_throws E (copies w + k))"
    then show "\<exists>w'. Reserve E n v w = (Some CopyThrew, v, w') \<and> invariant w' v \<and>
                  slots w' (m_data v) = slots w (m_data v) \<and> elements w' v = elements w v"
      using rs by blast
  next
    assume "Size v = Capacity v \<and> fits E (Size v * 2) \<and> \<not> new_throws E (Size v * 2 * size_of E) \<and>
          run_ctor E args (copies w) = (Inr x, c0) \<and> (\<exists>k<Size v. copy_throws E (c0 + k))"
    then show "\<exists>w'. EmplaceBack E args v w = (Inl CopyThrew, v, w') \<and> invariant w' v \<and>
                  slots w' (m_data v) = slots w (m_data v) \<and> elements w' v = elements w v"
      using eb[of args x c0] by blast
  next
    assume "Size v = Capacity v \<and> fits E (Size v * 2) \<and> \<not> new_throws E (Size v * 2 * size_of E) \<and>
          \<not> copy_throws E (copies w) \<and> (\<exists>k<Size v. copy_throws E (Suc (copies w) + k))"
    then show "\<exists>w'. PushBack_copy E x v w = (Inl CopyThrew, v, w') \<and> invariant w' v \<and>
                  slots w' (m_data v) = slots w (m_data v) \<and> elements w' v = elements w v"
      using pc by blast
  next
    assume "Size v = Capacity v \<and> fits E (Size v * 2) \<and> \<not> new_throws E (Size v * 2 * size_of E) \<and>
          (\<exists>k<Size v. copy_throws E (copies w + k))"
    then show "\<exists>w'. PushBack_move E x v w = (Inl CopyThrew, v, w') \<and> invariant w' v \<and>
                  slots w' (m_data v) = slots w (m_data v) \<and> elements w' v = elements w v"
      using pm by blast
  qed
qed

theorem growth_copy_failure_keeps_vector_witness:
  "is_copy_constructible (throwing_copy_type 1) \<and> \<not> is_nothrow_move_constructible (throwing_copy_type 1) \<and>
   invariant two_ints full_vector \<and>
   Capacity full_vector < 5 \<and> Size full_vector = Capacity full_vector \<and>
   fits (throwing_copy_type 1) 5 \<and> fits (throwing_copy_type 1) (Size full_vector * 2) \<and>
   \<not> new_throws (throwing_copy_type 1) (5 * size_of (throwing_copy_type 1)) \<and>
   \<not> new_throws (throwing_copy_type 1) (Size full_vector * 2 * size_of (throwing_copy_type 1)) \<and>
   run_ctor (throwing_copy_type 1) (InPlace 99) (copies two_ints) = (Inr 99, 0) \<and>
   \<not> copy_throws (throwing_copy_type 1) (copies two_ints) \<and>
   copy_throws (throwing_copy_type 1) (copies two_ints + 1) \<and>
   (\<exists>w'. Reserve (throwing_copy_type 1) 5 full_vector two_ints = (Some CopyThrew, full_vector, w') \<and>
      invariant w' full_vector \<and> slots w' (m_data full_vector) = [Live 1, Live 2] \<and>
      elements w' full_vector = [1, 2]) \<and>
   (\<exists>w'. EmplaceBack (throwing_copy_type 1) (InPlace 99) full_vector two_ints = (Inl CopyThrew, full_vector, w') \<and>
      invariant w' full_vector \<and> slots w' (m_data full_vector) = [Live 1, Live 2] \<and>
      elements w' full_vector = [1, 2]) \<and>
   (\<exists>w'. PushBack_copy (throwing_copy_type 1) 99 full_vector two_ints = (Inl CopyThrew, full_vector, w') \<and>
      invariant w' full_vector \<and> slots w' (m_data full_vector) = [Live 1, Live 2] \<and>
      elements w' full_vector = [1, 2]) \<and>
   (\<exists>w'. PushBack_move (throwing_copy_type 1) 99 full_vector two_ints = (Inl CopyThrew, full_vector, w') \<and>
      invariant w' full_vector \<and> slots w' (m_data full_vector) = [Live 1, Live 2] \<and>
      elements w' full_vector = [1, 2])"
proof -
  have k1: "\<exists>k<Size full_vector. copy_throws (throwing_copy_type 1) (copies two_ints + k)"
    by (rule exI[of _ 1]) (simp add: full_vector_facts example_type_facts)
  have k2: "\<exists>k<Size full_vector. copy_throws (throwing_copy_type 1) (0 + k)"
    by (rule exI[of _ 1]) (simp add: full_vector_facts example_type_facts)
  have k3: "\<exists>k<Size full_vector. copy_throws (throwing_copy_type 1) (Suc (copies two_ints) + k)"
    by (rule exI[of _ 0]) (simp add: full_vector_facts example_type_facts)
  show ?thesis
    using growth_copy_failure_keeps_vector[of "throwing_copy_type 1" two_ints full_vector 5 "InPlace 99" 99 0] k1 k2 k3
    by (simp add: full_vector_facts example_type_facts fits_def)
qed

text \<open>
  The bound on the request matters. \<^verbatim>\<open>Reserve(n)\<close> with \<open>n = 2 ^ 62\<close> on an empty vector
  of \<^verbatim>\<open>int\<close> asks \<^verbatim>\<open>operator new\<close> for \<open>2 ^ 62 * 4\<close> bytes, which is 0 in a \<^verbatim>\<open>size_t\<close> of 64
  bits: the call returns normally with capacity \<open>2 ^ 62\<close> over a block without room for
  a single element.
\<close>

lemma Reserve_request_wraps:
  "\<not> fits plain_type (2 ^ 62) \<and>
   (case Reserve plain_type (2 ^ 62) Vector_default no_allocations of
      (st, v', w') \<Rightarrow> st = None \<and> Size v' = 0 \<and> Capacity v' = 2 ^ 62 \<and> slots w' (m_data v') = [])"
  by (simp add: fits_def Reserve_def RawMemory_new_def Allocate_def operator_new_def size_t_mul_def
      CopyOrMoveAndSwap_def relocates_by_move_def uninitialized_move_n_def destroy_n_def on_slots_def
      RawMemory_Swap_def RawMemory_dtor_def Deallocate_def slots_def put_slots_def
      RawMemory_Capacity_def Capacity_def Size_def Vector_default_def RawMemory_default_def
      plain_type_def no_allocations_def)

section \<open>Moving and swapping\<close>

text \<open>
  C8, as the code has it. Move construction hands the allocation and the capacity of the
  source to the new object and leaves the source with \<^verbatim>\<open>nullptr\<close> and capacity 0. Move
  assignment is a swap: the destination receives the allocation and capacity of the
  source, and the source receives those the destination had, which are empty only when
  the destination was empty. Neither touches the heap, so no allocation is made, released
  or duplicated.
\<close>

theorem RawMemory_move_exchanges:
  "RawMemory_move_ctor other = (other, RawMemory_default) \<and>
   RawMemory_move_assign this rhs = (rhs, this)"
  by (simp add: RawMemory_move_ctor_def RawMemory_move_assign_def RawMemory_Swap_def
      RawMemory_default_def)

text \<open>After move assignment onto a destination that owns two slots, the source owns
  those two slots: it is left with neither capacity 0 nor a null allocation.\<close>

theorem RawMemory_move_assign_counterexample:
  "m_capacity (snd (RawMemory_move_assign \<lparr>m_buffer = Some 0, m_capacity = 2\<rparr>
                                           \<lparr>m_buffer = Some 1, m_capacity = 3\<rparr>)) \<noteq> 0 \<and>
   m_buffer (snd (RawMemory_move_assign \<lparr>m_buffer = Some 0, m_capacity = 2\<rparr>
                                         \<lparr>m_buffer = Some 1, m_capacity = 3\<rparr>)) \<noteq> None"
  by (simp add: RawMemory_move_assign_def RawMemory_Swap_def)

text \<open>
  C9. Move assignment \<^verbatim>\<open>B = std::move(A)\<close> of vectors is a symmetric swap: afterwards
  \<open>b\<close> refers to the object that \<open>A\<close> was and \<open>a\<close> to the object that \<open>B\<close> was, so
  each holds the other's former elements, size and capacity; no other object and nothing
  in the heap changes.
\<close>

theorem Vector_move_assign_swaps:
  assumes "os a = Some A" and "os b = Some B"
  shows "\<exists>os'. Vector_move_assign b a os = Inr os' \<and> os' b = Some A \<and> os' a = Some B \<and>
           (\<forall>r. r \<noteq> a \<and> r \<noteq> b \<longrightarrow> os' r = os r) \<and>
           elements w (the (os' b)) = elements w A \<and> Size (the (os' b)) = Size A \<and>
           Capacity (the (os' b)) = Capacity A \<and>
           elements w (the (os' a)) = elements w B \<and> Size (the (os' a)) = Size B \<and>
           Capacity (the (os' a)) = Capacity B"
proof -
  have sw: "Vector_Swap B A = (A, B)"
    by (simp add: Vector_Swap_def RawMemory_Swap_def)
  have "Vector_move_assign b a os = Inr (os(a \<mapsto> B, b \<mapsto> A))"
    using assms sw by (simp add: Vector_move_assign_def Swap_def)
  moreover have "a = b \<Longrightarrow> A = B" using assms by simp
  ultimately show ?thesis by (intro exI[of _ "os(a \<mapsto> B, b \<mapsto> A)"]) auto
qed

text \<open>The witness moves the vector \<open>1, 2\<close> (object 0) onto the vector \<open>7\<close> of capacity 3
  (object 1): afterwards object 1 holds \<open>1, 2\<close> and the source, object 0, holds \<open>7\<close> with
  capacity 3; it is not empty.\<close>

theorem Vector_move_assign_swaps_witness:
  "((\<lambda>r. None)(0 \<mapsto> full_vector, 1 \<mapsto> single_vector)) (0::nat) = Some full_vector \<and>
   ((\<lambda>r. None)(0 \<mapsto> full_vector, 1 \<mapsto> single_vector)) (1::nat) = Some single_vector \<and>
   (\<exists>os'. Vector_move_assign 1 0 ((\<lambda>r. None)(0 \<mapsto> full_vector, 1 \<mapsto> single_vector)) = Inr os' \<and>
      os' 1 = Some full_vector \<and> os' 0 = Some single_vector \<and> os' 2 = None \<and>
      elements two_vectors (the (os' 1)) = [1, 2] \<and>
      Size (the (os' 1)) = 2 \<and> Capacity (the (os' 1)) = 2 \<and>
      elements two_vectors (the (os' 0)) = [7] \<and>
      Size (the (os' 0)) = 1 \<and> Capacity (the (os' 0)) = 3)"
  using Vector_move_assign_swaps[of "(\<lambda>r. None)(0 \<mapsto> full_vector, 1 \<mapsto> single_vector)"
      0 full_vector 1 single_vector two_vectors]
  by (auto simp: two_vectors_facts full_vector_facts)

text \<open>
  C10. Copy assignment of a vector to itself, \<^verbatim>\<open>v = v\<close>, returns at once in both source
  files: the object store and the world are as before, so size, capacity and elements
  are unchanged, no allocation is touched and the copy constructor is not invoked.
\<close>

theorem self_copy_assign_unchanged:
  assumes "os r = Some v"
  shows "Vector_copy_assign E r r os w = (None, os, w) \<and>
         Vector_copy_assign_part_000 E r r os w = (None, os, w)"
  using assms by (simp add: Vector_copy_assign_def Vector_copy_assign_part_000_def)

theorem self_copy_assign_unchanged_witness:
  "((\<lambda>r. None)(0 \<mapsto> full_vector)) (0::nat) = Some full_vector \<and>
   Vector_copy_assign plain_type 0 0 ((\<lambda>r. None)(0 \<mapsto> full_vector)) two_ints =
     (None, (\<lambda>r. None)(0 \<mapsto> full_vector), two_ints) \<and>
   Vector_copy_assign_part_000 plain_type 0 0 ((\<lambda>r. None)(0 \<mapsto> full_vector)) two_ints =
     (None, (\<lambda>r. None)(0 \<mapsto> full_vector), two_ints)"
  using self_copy_assign_unchanged[of "(\<lambda>r. None)(0 \<mapsto> full_vector)" 0 full_vector plain_type two_ints]
  by simp

section \<open>The growth branch of Emplace when a copy throws\<close>

text \<open>The example element type, and the allocation of four slots that the growth of a
  full vector of two elements requests: \<open>2 * 2\<close> and \<open>4 * 4\<close> do not wrap.\<close>

lemma throwing_copy_type_facts:
  "relocates_by_move (throwing_copy_type j) = False" "copy_throws (throwing_copy_type j) k = (k = j)"
  "destroyed (throwing_copy_type j) x = x"
  by (simp_all add: throwing_copy_type_def relocates_by_move_def)

lemma example_growth:
  "size_t_mul (throwing_copy_type j) (Suc (Suc 0)) (Suc (Suc 0)) = Suc (Suc (Suc (Suc 0)))"
  "RawMemory_new (throwing_copy_type j) (Suc (Suc (Suc (Suc 0)))) w =
     (Inr \<lparr>m_buffer = Some (brk w), m_capacity = Suc (Suc (Suc (Suc 0)))\<rparr>,
      w\<lparr>heap := (heap w)(brk w \<mapsto> [Raw 0, Raw 0, Raw 0, Raw 0]), brk := Suc (brk w)\<rparr>)"
proof -
  have "[0..<16 div 4] = [0, 1, 2, 3]" by (simp add: upt_rec)
  then show "RawMemory_new (throwing_copy_type j) (Suc (Suc (Suc (Suc 0)))) w =
     (Inr \<lparr>m_buffer = Some (brk w), m_capacity = Suc (Suc (Suc (Suc 0)))\<rparr>,
      w\<lparr>heap := (heap w)(brk w \<mapsto> [Raw 0, Raw 0, Raw 0, Raw 0]), brk := Suc (brk w)\<rparr>)"
    by (simp add: RawMemory_new_def Allocate_def operator_new_def size_t_mul_def throwing_copy_type_def)
qed (simp add: size_t_mul_def throwing_copy_type_def)

lemmas eval_defs = Emplace_def Emplace_grow_def Emplace_prefix_def Emplace_suffix_def
  Capacity_def RawMemory_Capacity_def RawMemory_dtor_def Deallocate_def RawMemory_Swap_def
  construct_def on_slots_def slots_def put_slots_def
  uninitialized_copy_n_def uninitialized_copy_slots_def destroy_n_def destroy_at_def
  destroy_slot_def construct_slot_def read_slot_def
  two_ints_def full_vector_def invariant_def owns_def throwing_copy_type_facts example_growth

text \<open>
  C1, at the vector \<open>1, 2\<close> with size and capacity 2, inserting 99 at position 1, for an
  element type that is relocated by copy and whose first copy construction throws. The
  copy of the prefix throws; the handler destroys the new element; then \<^verbatim>\<open>Emplace\<close> goes
  on: it copies the suffix, destroys the old elements, swaps and returns the iterator.
  No failure reaches the caller, and the vector has size 3, capacity 4 and the slots
  uninitialized, uninitialized (the storage of the destroyed 99), 2, uninitialized.
\<close>

theorem Emplace_swallows_copy_failure:
  "invariant two_ints full_vector \<and>
   (case Emplace (throwing_copy_type 0) 1 (InPlace 99) full_vector two_ints of
      (r, v', w') \<Rightarrow> r = Inr 1 \<and> m_size v' = 3 \<and> Capacity v' = 4 \<and>
                    slots w' (m_data v') = [Raw 0, Raw 99, Live 2, Raw 0])"
  by (simp add: eval_defs eval_nat_numeral)

text \<open>
  C3, at the same vector, when the second copy construction throws. The prefix is copied;
  the copy of the suffix throws; the handler destroys the prefix and the new element in
  the new allocation; then \<^verbatim>\<open>Emplace\<close> goes on and returns normally with size 3 over four
  uninitialized slots. The invariant held before the call and does not hold after it.
\<close>

theorem Emplace_breaks_invariant:
  "invariant two_ints full_vector \<and>
   (case Emplace (throwing_copy_type 1) 1 (InPlace 99) full_vector two_ints of
      (r, v', w') \<Rightarrow> r = Inr 1 \<and> m_size v' = 3 \<and>
                    slots w' (m_data v') = [Raw 1, Raw 99, Raw 0, Raw 0] \<and> \<not> invariant w' v')"
  by (simp add: eval_defs eval_nat_numeral)

end
